theory Spec2Isabelle
  imports Complex_Main "HOL-Library.AList"
begin

section \<open>Corzz Optimizer, CLI loader: a shallow embedding of CorzzLoader_CLI.py\<close>

text \<open>
  The Python functions of \<^verbatim>\<open>CorzzLoader_CLI.py\<close> are translated one by one, keeping
  their names. A Python function that reads or changes the machine becomes a function
  from the state of the machine to an outcome and the new state; an outcome is
  \<open>Inr v\<close> (the function returned \<open>v\<close>) or \<open>Inl e\<close> (the exception \<open>e\<close> left the
  function). A \<^verbatim>\<open>try ... except Exception\<close> is the combinator \<open>py_try\<close>.

  Python strings are modelled as \<open>string\<close>; a character stands for the code point of
  the same number, so the model covers the code points below 256.
\<close>

subsection \<open>Exceptions and the state-and-exception discipline\<close>

text \<open>
  Every exception of the model is a subclass of Python's \<^verbatim>\<open>Exception\<close>; the carried
  string is \<^verbatim>\<open>str(e)\<close>. \<^verbatim>\<open>KeyboardInterrupt\<close> and \<^verbatim>\<open>SystemExit\<close>, which
  \<^verbatim>\<open>except Exception\<close> does not catch, are not modelled.
\<close>

datatype exn =
    TimeoutExpired string
  | FileNotFoundError string
  | PermissionError string
  | IndexError string
  | ZeroDivisionError string
  | ImportError string
  | OverflowError string
  | OtherException string

fun exn_str :: "exn \<Rightarrow> string" where
  "exn_str (TimeoutExpired m) = m"
| "exn_str (FileNotFoundError m) = m"
| "exn_str (PermissionError m) = m"
| "exn_str (IndexError m) = m"
| "exn_str (ZeroDivisionError m) = m"
| "exn_str (ImportError m) = m"
| "exn_str (OverflowError m) = m"
| "exn_str (OtherException m) = m"

type_synonym ('a, 'w) py = "'w \<Rightarrow> (exn + 'a) \<times> 'w"

definition py_return :: "'a \<Rightarrow> ('a, 'w) py" where
  "py_return v = (\<lambda>w. (Inr v, w))"

definition py_raise :: "exn \<Rightarrow> ('a, 'w) py" where
  "py_raise e = (\<lambda>w. (Inl e, w))"

definition py_bind :: "('a, 'w) py \<Rightarrow> ('a \<Rightarrow> ('b, 'w) py) \<Rightarrow> ('b, 'w) py" where
  "py_bind m f = (\<lambda>w. case m w of (Inl e, w') \<Rightarrow> (Inl e, w') | (Inr v, w') \<Rightarrow> f v w')"

definition py_try :: "('a, 'w) py \<Rightarrow> (exn \<Rightarrow> ('a, 'w) py) \<Rightarrow> ('a, 'w) py" where
  "py_try m h = (\<lambda>w. case m w of (Inl e, w') \<Rightarrow> h e w' | (Inr v, w') \<Rightarrow> (Inr v, w'))"

subsection \<open>String operations of Python used by the program\<close>

text \<open>\<^verbatim>\<open>str.isspace\<close> on the code points below 256; it is also the class \<^verbatim>\<open>\s\<close> of \<^verbatim>\<open>re\<close>.\<close>

definition is_space :: "char \<Rightarrow> bool" where
  "is_space c = (let n = (of_char c :: nat) in
     (9 \<le> n \<and> n \<le> 13) \<or> (28 \<le> n \<and> n \<le> 32) \<or> n = 133 \<or> n = 160)"

definition strip :: "string \<Rightarrow> string" where
  "strip s = rev (dropWhile is_space (rev (dropWhile is_space s)))"

text \<open>\<^verbatim>\<open>str.lower\<close> on the code points below 256.\<close>

definition lower_char :: "char \<Rightarrow> char" where
  "lower_char c = (let n = (of_char c :: nat) in
     if (65 \<le> n \<and> n \<le> 90) \<or> (192 \<le> n \<and> n \<le> 222 \<and> n \<noteq> 215)
     then char_of (n + 32) else c)"

definition lower :: "string \<Rightarrow> string" where
  "lower s = map lower_char s"

definition startswith :: "string \<Rightarrow> string \<Rightarrow> bool" where
  "startswith s p = (take (length p) s = p)"

text \<open>\<^verbatim>\<open>t in s\<close> for strings: \<open>t\<close> occurs in \<open>s\<close> as a contiguous piece.\<close>

fun contains :: "string \<Rightarrow> string \<Rightarrow> bool" where
  "contains [] t = (t = [])"
| "contains (c # cs) t = (startswith (c # cs) t \<or> contains cs t)"

text \<open>
  \<^verbatim>\<open>repr\<close> of a list of strings, as the f-string \<^verbatim>\<open>f"RUN: {cmd}"\<close> prints it. Escapes
  inside the items (quotes, backslashes, control characters) are not modelled; the text
  only goes to the log.
\<close>

fun join :: "string \<Rightarrow> string list \<Rightarrow> string" where
  "join sep [] = []"
| "join sep [x] = x"
| "join sep (x # y # ys) = x @ sep @ join sep (y # ys)"

definition repr_list :: "string list \<Rightarrow> string" where
  "repr_list xs = ''['' @ join '', '' (map (\<lambda>x. [CHR 0x27] @ x @ [CHR 0x27]) xs) @ '']''"

subsection \<open>The machine\<close>

text \<open>
  The state of the machine as the program sees it:
  \<^item> \<open>os\<close>: whatever the external commands read and change (the power schemes), of a
    type the program never inspects;
  \<^item> \<open>issued\<close>: the commands handed to \<^verbatim>\<open>subprocess.run\<close> so far, oldest first (a
    history kept by the model, not by the program);
  \<^item> \<open>log_file\<close>, \<open>log_writable\<close>: the text of \<^verbatim>\<open>LOG_PATH\<close>, and whether opening it for
    appending succeeds;
  \<^item> \<open>state_file\<close>: the text of \<^verbatim>\<open>STATE_PATH\<close>, \<open>None\<close> when the file is absent;
    \<open>state_writable\<close>, \<open>state_readable\<close>: whether \<^verbatim>\<open>write_text\<close> and \<^verbatim>\<open>read_text\<close>
    succeed on it;
  \<^item> \<open>timestamp\<close>: \<^verbatim>\<open>datetime.now().strftime("%Y-%m-%d %H:%M:%S")\<close>;
  \<^item> \<open>temp_env\<close>: the path \<^verbatim>\<open>os.environ.get("TEMP", tempfile.gettempdir())\<close>;
    \<open>home_temp\<close>: the path \<^verbatim>\<open>Path.home()/"AppData"/"Local"/"Temp"\<close>;
  \<^item> \<open>files\<close>: the directory trees the temp cleaner can reach, by path (two targets
    with the same path are the same tree; a target inside another target is not
    modelled);
  \<^item> \<open>now\<close>: \<^verbatim>\<open>time.time()\<close>, a real number standing for Python's float.
  External commands are assumed to touch neither file.
\<close>

text \<open>
  A file as \<^verbatim>\<open>clean_temp\<close> meets it: what \<^verbatim>\<open>stat\<close> reports, and whether
  \<^verbatim>\<open>fp.stat()\<close>, \<^verbatim>\<open>os.chmod(fp, 0o666)\<close> and \<^verbatim>\<open>fp.unlink(missing_ok=True)\<close> succeed on
  it. A directory: whether \<^verbatim>\<open>os.walk\<close> can list it (it silently skips a directory
  it cannot list), whether \<^verbatim>\<open>rmdir\<close> is permitted on it, its files and its
  subdirectories.
\<close>

record file_entry =
  fname :: string
  st_mtime :: real
  st_size :: nat
  stat_ok :: bool
  chmod_ok :: bool
  unlink_ok :: bool

datatype dir =
  Dir (dname: string) (scandir_ok: bool) (rmdir_ok: bool) (dfiles: "file_entry list") (subdirs: "dir list")

record 'os world =
  os :: 'os
  issued :: "string list list"
  log_file :: string
  log_writable :: bool
  state_file :: "string option"
  state_writable :: bool
  state_readable :: bool
  timestamp :: string
  temp_env :: string
  home_temp :: string
  files :: "(string \<times> dir) list"
  now :: real

text \<open>
  What \<^verbatim>\<open>subprocess.run(cmd, capture_output=True, text=True, shell=shell,
  timeout=timeout)\<close> does on a given operating system: from the command, the shell flag,
  the timeout and the state of the system, either an exception (\<open>TimeoutExpired\<close>, or
  any other launch failure) or the completed process \<open>(returncode, stdout, stderr)\<close>,
  and the new state of the system. It is a parameter of every function that runs a
  command.
\<close>

type_synonym 'os sys =
  "string list \<Rightarrow> bool \<Rightarrow> nat \<Rightarrow> 'os \<Rightarrow> (exn + (int \<times> string \<times> string)) \<times> 'os"

definition subprocess_run ::
  "'os sys \<Rightarrow> string list \<Rightarrow> bool \<Rightarrow> nat \<Rightarrow> (int \<times> string \<times> string, 'os world) py" where
  "subprocess_run sys cmd shell timeout = (\<lambda>w.
     case sys cmd shell timeout (os w) of
       (r, os') \<Rightarrow> (r, w\<lparr>os := os', issued := issued w @ [cmd]\<rparr>))"

definition POWER_ULTIMATE_GUID :: string where
  "POWER_ULTIMATE_GUID = ''e9a42b02-d5df-448d-aa00-03f14749eb61''"

subsection \<open>Logger\<close>

text \<open>
  The body of the \<^verbatim>\<open>try\<close> in \<^verbatim>\<open>log\<close>: open the log for appending and write the line.
  It raises when the file cannot be opened.
\<close>

definition append_log :: "string \<Rightarrow> (unit, 'os world) py" where
  "append_log line = (\<lambda>w.
     if log_writable w then (Inr (), w\<lparr>log_file := log_file w @ line\<rparr>)
     else (Inl (PermissionError ''Permission denied''), w))"

definition log :: "string \<Rightarrow> (unit, 'os world) py" where
  "log msg = (\<lambda>w.
     let ts = timestamp w;
         line = ''['' @ ts @ ''] '' @ msg @ [CHR 0x0A]
     in py_try (append_log line) (\<lambda>e. py_return ()) w)"

subsection \<open>Privileged command runner\<close>

definition run :: "'os sys \<Rightarrow> string list \<Rightarrow> bool \<Rightarrow> nat \<Rightarrow> (int \<times> string \<times> string, 'os world) py" where
  "run sys cmd shell timeout =
     py_bind (log (''RUN: '' @ repr_list cmd)) (\<lambda>_.
     py_try
       (py_bind (subprocess_run sys cmd shell timeout) (\<lambda>(returncode, stdout, stderr).
        py_bind (if stdout \<noteq> [] then log (''STDOUT: '' @ strip stdout) else py_return ()) (\<lambda>_.
        py_bind (if stderr \<noteq> [] then log (''STDERR: '' @ strip stderr) else py_return ()) (\<lambda>_.
        py_return (returncode, stdout, stderr)))))
       (\<lambda>e. case e of
          TimeoutExpired m \<Rightarrow>
            py_bind (log ''Timeout'') (\<lambda>_. py_return (1, [], ''Timeout''))
        | _ \<Rightarrow>
            py_bind (log (''Error: '' @ exn_str e)) (\<lambda>_. py_return (1, [], exn_str e))))"

subsection \<open>Power plan\<close>

text \<open>
  \<^verbatim>\<open>re.search(r"GUID:\s*([a-fA-F0-9\-]{36})", out)\<close>. \<open>match_guid_at\<close> is the pattern
  anchored at the start of its argument: the literal, then all the white space there is
  (no character of the class is white space, so giving white space back never helps),
  then 36 characters of the class. \<open>search_guid\<close> tries every position from the left and
  returns group 1 of the first match.
\<close>

definition is_guid_char :: "char \<Rightarrow> bool" where
  "is_guid_char c = (c \<in> set ''abcdefABCDEF0123456789-'')"

definition match_guid_at :: "string \<Rightarrow> string option" where
  "match_guid_at s =
     (if startswith s ''GUID:'' then
        (let g = take 36 (dropWhile is_space (drop 5 s))
         in if length g = 36 \<and> list_all is_guid_char g then Some g else None)
      else None)"

fun search_guid :: "string \<Rightarrow> string option" where
  "search_guid [] = match_guid_at []"
| "search_guid (c # cs) =
     (case match_guid_at (c # cs) of Some g \<Rightarrow> Some g | None \<Rightarrow> search_guid cs)"

definition get_active_power_scheme_guid :: "'os sys \<Rightarrow> (string option, 'os world) py" where
  "get_active_power_scheme_guid sys =
     py_bind (run sys [''powercfg'', ''/getactivescheme''] False 120) (\<lambda>(rc, out, err).
       if rc = 0 \<and> out \<noteq> [] then
         (case search_guid out of Some g \<Rightarrow> py_return (Some g) | None \<Rightarrow> py_return None)
       else py_return None)"

text \<open>
  \<^verbatim>\<open>STATE_PATH.write_text(text, encoding="utf-8")\<close> and
  \<^verbatim>\<open>STATE_PATH.read_text(encoding="utf-8")\<close>. A write that fails is taken to fail
  before the file is touched.
\<close>

definition write_text :: "string \<Rightarrow> (unit, 'os world) py" where
  "write_text text = (\<lambda>w.
     if state_writable w then (Inr (), w\<lparr>state_file := Some text\<rparr>)
     else (Inl (PermissionError ''Permission denied''), w))"

definition read_text :: "(string, 'os world) py" where
  "read_text = (\<lambda>w.
     case state_file w of
       None \<Rightarrow> (Inl (FileNotFoundError ''No such file or directory''), w)
     | Some text \<Rightarrow>
         if state_readable w then (Inr text, w)
         else (Inl (PermissionError ''Permission denied''), w))"

text \<open>The truth value Python gives \<^verbatim>\<open>prev\<close>, which is \<^verbatim>\<open>None\<close> or a string.\<close>

fun truthy :: "string option \<Rightarrow> bool" where
  "truthy None = False"
| "truthy (Some s) = (s \<noteq> [])"

definition enable_ultimate :: "'os sys \<Rightarrow> (bool, 'os world) py" where
  "enable_ultimate sys =
     py_bind (run sys [''powercfg'', ''/list''] False 120) (\<lambda>(rc, out, err).
     py_bind (if \<not> contains (lower (out @ err)) (lower POWER_ULTIMATE_GUID)
              then py_bind (run sys [''powercfg'', ''/duplicatescheme'', POWER_ULTIMATE_GUID] False 120)
                     (\<lambda>_. py_return ())
              else py_return ()) (\<lambda>_.
     py_bind (get_active_power_scheme_guid sys) (\<lambda>prev.
     py_bind (if truthy prev
              then py_try (write_text (''previous_scheme='' @ the prev @ [CHR 0x0A]))
                     (\<lambda>e. py_return ())
              else py_return ()) (\<lambda>_.
     py_bind (run sys [''powercfg'', ''/setactive'', POWER_ULTIMATE_GUID] False 120) (\<lambda>(rc, out, err).
     let ok = (rc = 0) in
     py_bind (log (''Ultimate Performance '' @ (if ok then ''enabled'' else ''FAILED''))) (\<lambda>_.
     py_return ok))))))"

text \<open>
  The state in which line 78 of the source, the query of the active scheme, runs: after
  the listing and, when the listing does not show the Ultimate scheme, its duplication.
\<close>

definition enable_ultimate_pre :: "'os sys \<Rightarrow> 'os world \<Rightarrow> 'os world" where
  "enable_ultimate_pre sys w =
     snd (py_bind (run sys [''powercfg'', ''/list''] False 120) (\<lambda>(rc, out, err).
          if \<not> contains (lower (out @ err)) (lower POWER_ULTIMATE_GUID)
          then py_bind (run sys [''powercfg'', ''/duplicatescheme'', POWER_ULTIMATE_GUID] False 120)
                 (\<lambda>_. py_return ())
          else py_return ()) w)"

text \<open>\<^verbatim>\<open>str.splitlines\<close> on the code points below 256.\<close>

definition is_linebreak :: "char \<Rightarrow> bool" where
  "is_linebreak c = (let n = (of_char c :: nat) in
     (10 \<le> n \<and> n \<le> 13) \<or> (28 \<le> n \<and> n \<le> 30) \<or> n = 133)"

fun splitlines_from :: "string \<Rightarrow> string \<Rightarrow> string list" where
  "splitlines_from cur [] = (if cur = [] then [] else [cur])"
| "splitlines_from cur [c] = (if is_linebreak c then [cur] else [cur @ [c]])"
| "splitlines_from cur (c # d # cs) =
     (if c = CHR 0x0D \<and> d = CHR 0x0A then cur # splitlines_from [] cs
      else if is_linebreak c then cur # splitlines_from [] (d # cs)
      else splitlines_from (cur @ [c]) (d # cs))"

definition splitlines :: "string \<Rightarrow> string list" where
  "splitlines s = splitlines_from [] s"

text \<open>\<^verbatim>\<open>line.split("=", 1)\<close> and the indexing \<^verbatim>\<open>[1]\<close> of its result.\<close>

definition split_eq1 :: "string \<Rightarrow> string list" where
  "split_eq1 s =
     (if CHR ''='' \<in> set s
      then [takeWhile (\<lambda>c. c \<noteq> CHR ''='') s, tl (dropWhile (\<lambda>c. c \<noteq> CHR ''='') s)]
      else [s])"

definition item :: "'a list \<Rightarrow> nat \<Rightarrow> exn + 'a" where
  "item xs i = (if i < length xs then Inr (xs ! i) else Inl (IndexError ''list index out of range''))"

text \<open>The \<^verbatim>\<open>for line in ...\<close> loop of \<^verbatim>\<open>restore_power\<close>, from the value \<^verbatim>\<open>prev\<close> has so far.\<close>

fun scan_previous :: "string option \<Rightarrow> string list \<Rightarrow> exn + string option" where
  "scan_previous prev [] = Inr prev"
| "scan_previous prev (line # ls) =
     (if startswith line ''previous_scheme=''
      then (case item (split_eq1 line) 1 of
              Inl e \<Rightarrow> Inl e
            | Inr v \<Rightarrow> scan_previous (Some (strip v)) ls)
      else scan_previous prev ls)"

definition py_lift :: "exn + 'a \<Rightarrow> ('a, 'w) py" where
  "py_lift r = (\<lambda>w. (r, w))"

text \<open>
  The body of the \<^verbatim>\<open>try\<close> in \<^verbatim>\<open>restore_power\<close>: \<open>Some b\<close> when it executes
  \<^verbatim>\<open>return b\<close>, \<open>None\<close> when it runs to its end.
\<close>

definition restore_power_try :: "'os sys \<Rightarrow> (bool option, 'os world) py" where
  "restore_power_try sys = (\<lambda>w.
     if state_file w = None then py_return (Some False) w
     else
       py_bind read_text (\<lambda>text.
       py_bind (py_lift (scan_previous None (splitlines text))) (\<lambda>prev.
       if truthy prev
       then py_bind (run sys [''powercfg'', ''/setactive'', the prev] False 120) (\<lambda>(rc, out, err).
              py_return (Some (rc = 0)))
       else py_return None)) w)"

definition restore_power :: "'os sys \<Rightarrow> (bool, 'os world) py" where
  "restore_power sys =
     py_bind (py_try (restore_power_try sys) (\<lambda>e. py_return None)) (\<lambda>r.
       case r of Some b \<Rightarrow> py_return b | None \<Rightarrow> py_return False)"

text \<open>Whether a completed command reported success (exit code 0).\<close>

fun succeeded :: "exn + (int \<times> string \<times> string) \<Rightarrow> bool" where
  "succeeded (Inr (rc, out, err)) = (rc = 0)"
| "succeeded (Inl e) = False"

text \<open>
  The meaning of the regular expression, stated without an algorithm: the pattern
  matches at the start of \<open>t\<close> with group 1 equal to \<open>g\<close> when \<open>t\<close> is the literal
  \<^verbatim>\<open>GUID:\<close>, any run of white space, the 36 characters \<open>g\<close> of the class, and
  anything after them.
\<close>

definition pattern_matches :: "string \<Rightarrow> string \<Rightarrow> bool" where
  "pattern_matches t g =
     (\<exists>ws rest. t = ''GUID:'' @ ws @ g @ rest \<and> list_all is_space ws \<and>
        length g = 36 \<and> list_all is_guid_char g)"

text \<open>
  Lines 99 and 100 of the source on their own: activate the scheme \<open>g\<close> and report
  whether the command exited with code 0.
\<close>

definition set_active :: "'os sys \<Rightarrow> string \<Rightarrow> (bool, 'os world) py" where
  "set_active sys g =
     py_bind (run sys [''powercfg'', ''/setactive'', g] False 120) (\<lambda>(rc, out, err).
       py_return (rc = 0))"

subsection \<open>Temp cleaner\<close>

text \<open>
  Line 137, \<^verbatim>\<open>cutoff = time.time() - older_days*86400 if older_days else None\<close>. The
  product is an integer of any size; subtracting it from a float converts it to a
  float first, and Python raises \<^verbatim>\<open>OverflowError\<close> when the integer does not round to
  a finite double, that is from \<open>2 ^ 1024 - 2 ^ 970\<close> on in absolute value. The line
  stands outside every \<^verbatim>\<open>try\<close>. Where the conversion succeeds the difference is taken
  over the reals. \<open>cutoff_truthy\<close> is the truth value Python gives \<^verbatim>\<open>cutoff\<close> in
  \<^verbatim>\<open>if cutoff and ...\<close> (a float is true unless it is zero).
\<close>

definition float_overflows :: "int \<Rightarrow> bool" where
  "float_overflows n = (2 ^ 1024 - 2 ^ 970 \<le> \<bar>n\<bar>)"

definition cutoff_of :: "real \<Rightarrow> int \<Rightarrow> exn + real option" where
  "cutoff_of t older_days =
     (if older_days \<noteq> 0 then
        (if float_overflows (older_days * 86400)
         then Inl (OverflowError ''int too large to convert to float'')
         else Inr (Some (t - real_of_int (older_days * 86400))))
      else Inr None)"

fun cutoff_truthy :: "real option \<Rightarrow> bool" where
  "cutoff_truthy None = False"
| "cutoff_truthy (Some c) = (c \<noteq> 0)"


text \<open>
  The body of the \<^verbatim>\<open>try\<close> for one file (lines 146 to 151): an exception when
  \<^verbatim>\<open>stat\<close>, \<^verbatim>\<open>chmod\<close> or \<^verbatim>\<open>unlink\<close> fails, \<open>Skipped\<close> when the age check executes
  \<^verbatim>\<open>continue\<close>, \<open>Deleted sz\<close> when the file is gone and \<open>sz\<close> is to be added.
\<close>

datatype file_result = Skipped | Deleted nat

definition try_delete :: "real option \<Rightarrow> file_entry \<Rightarrow> exn + file_result" where
  "try_delete cutoff f =
     (if cutoff_truthy cutoff \<and> \<not> stat_ok f then Inl (PermissionError ''stat'')
      else if cutoff_truthy cutoff \<and> st_mtime f > the cutoff then Inr Skipped
      else if \<not> stat_ok f then Inl (PermissionError ''stat'')
      else if \<not> chmod_ok f then Inl (PermissionError ''chmod'')
      else if \<not> unlink_ok f then Inl (PermissionError ''unlink'')
      else Inr (Deleted (st_size f)))"


text \<open>
  The loop over the files of one directory, from the total so far: the new total and
  the files left. \<^verbatim>\<open>except Exception: continue\<close> goes on with the next file.
\<close>

fun clean_files :: "real option \<Rightarrow> file_entry list \<Rightarrow> nat \<Rightarrow> nat \<times> file_entry list" where
  "clean_files cutoff [] freed = (freed, [])"
| "clean_files cutoff (f # fs) freed =
     (case try_delete cutoff f of
        Inr (Deleted sz) \<Rightarrow> clean_files cutoff fs (freed + sz)
      | Inr Skipped \<Rightarrow> (case clean_files cutoff fs freed of (freed', fs') \<Rightarrow> (freed', f # fs'))
      | Inl e \<Rightarrow> (case clean_files cutoff fs freed of (freed', fs') \<Rightarrow> (freed', f # fs')))"


text \<open>
  \<^verbatim>\<open>dp.rmdir()\<close> succeeds on an empty directory that may be removed; the loop over the
  subdirectories passes over every failure.
\<close>

definition rmdir :: "dir \<Rightarrow> exn + unit" where
  "rmdir d =
     (if dfiles d \<noteq> [] \<or> subdirs d \<noteq> [] then Inl (OtherException ''The directory is not empty'')
      else if \<not> rmdir_ok d then Inl (PermissionError ''Access is denied'')
      else Inr ())"

fun remove_subdirs :: "dir list \<Rightarrow> dir list" where
  "remove_subdirs [] = []"
| "remove_subdirs (d # ds) =
     (case rmdir d of Inr _ \<Rightarrow> remove_subdirs ds | Inl e \<Rightarrow> d # remove_subdirs ds)"


text \<open>
  \<^verbatim>\<open>os.walk(d, topdown=False)\<close> with the loop body: every subdirectory is walked before
  the directory itself is handled; a directory that cannot be listed is skipped with
  everything below it.
\<close>

fun walk_dir :: "real option \<Rightarrow> dir \<Rightarrow> nat \<Rightarrow> nat \<times> dir"
  and walk_dirs :: "real option \<Rightarrow> dir list \<Rightarrow> nat \<Rightarrow> nat \<times> dir list" where
  "walk_dir cutoff (Dir name listable removable fs ds) freed =
     (if \<not> listable then (freed, Dir name listable removable fs ds)
      else case walk_dirs cutoff ds freed of (freed1, ds1) \<Rightarrow>
           case clean_files cutoff fs freed1 of (freed2, fs2) \<Rightarrow>
             (freed2, Dir name listable removable fs2 (remove_subdirs ds1)))"
| "walk_dirs cutoff [] freed = (freed, [])"
| "walk_dirs cutoff (d # ds) freed =
     (case walk_dir cutoff d freed of (freed1, d1) \<Rightarrow>
      case walk_dirs cutoff ds freed1 of (freed2, ds2) \<Rightarrow> (freed2, d1 # ds2))"


text \<open>
  The loop over the targets; a target that does not exist is skipped. \<^verbatim>\<open>d.exists()\<close>
  is taken to answer without raising.
\<close>

fun clean_targets ::
  "real option \<Rightarrow> string list \<Rightarrow> (string \<times> dir) list \<Rightarrow> nat \<Rightarrow> nat \<times> (string \<times> dir) list" where
  "clean_targets cutoff [] fs freed = (freed, fs)"
| "clean_targets cutoff (d # ds) fs freed =
     (case map_of fs d of
        None \<Rightarrow> clean_targets cutoff ds fs freed
      | Some t \<Rightarrow>
          (case walk_dir cutoff t freed of
             (freed', t') \<Rightarrow> clean_targets cutoff ds (AList.update d t' fs) freed'))"

definition temp_targets :: "bool \<Rightarrow> bool \<Rightarrow> 'os world \<Rightarrow> string list" where
  "temp_targets include_system aggressive w =
     [temp_env w, home_temp w]
       @ (if include_system then [''C:/Windows/Temp''] else [])
       @ (if aggressive then [''C:/Windows/Prefetch''] else [])"


text \<open>
  \<open>size_fmt\<close>, which formats the total for the log line with floating-point
  arithmetic, is a parameter: the text it produces only goes to the log.
\<close>

definition clean_temp ::
  "(nat \<Rightarrow> string) \<Rightarrow> bool \<Rightarrow> bool \<Rightarrow> int \<Rightarrow> (nat, 'os world) py" where
  "clean_temp size_fmt include_system aggressive older_days = (\<lambda>w.
     let targets = temp_targets include_system aggressive w
     in case cutoff_of (now w) older_days of
          Inl e \<Rightarrow> (Inl e, w)
        | Inr cutoff \<Rightarrow>
            (case clean_targets cutoff targets (files w) 0 of
               (freed, fs') \<Rightarrow>
                 py_bind (log (''Temp cleaned: '' @ size_fmt freed)) (\<lambda>_. py_return freed)
                   (w\<lparr>files := fs'\<rparr>)))"


text \<open>
  For the statements about the cleaner: the bytes held by a tree and by all the trees,
  the files the walk visits, all the files of a tree, whether the deletion sequence of
  a file runs to its end, and the same trees with other modification times.
\<close>

fun tree_bytes :: "dir \<Rightarrow> nat" where
  "tree_bytes (Dir name listable removable fs ds) =
     sum_list (map st_size fs) + sum_list (map tree_bytes ds)"

fun visited_files :: "dir \<Rightarrow> file_entry list" where
  "visited_files (Dir name listable removable fs ds) =
     (if listable then concat (map visited_files ds) @ fs else [])"

fun all_files :: "dir \<Rightarrow> file_entry list" where
  "all_files (Dir name listable removable fs ds) = concat (map all_files ds) @ fs"

definition completes :: "real option \<Rightarrow> file_entry \<Rightarrow> bool" where
  "completes cutoff f = (case try_delete cutoff f of Inr (Deleted sz) \<Rightarrow> True | _ \<Rightarrow> False)"

definition dir_bytes :: "(string \<times> dir) list \<Rightarrow> string \<Rightarrow> nat" where
  "dir_bytes fs k = (case map_of fs k of None \<Rightarrow> 0 | Some t \<Rightarrow> tree_bytes t)"

definition store_bytes :: "(string \<times> dir) list \<Rightarrow> nat" where
  "store_bytes fs = (\<Sum>k \<in> fst ` set fs. dir_bytes fs k)"

definition touch_file :: "(file_entry \<Rightarrow> real) \<Rightarrow> file_entry \<Rightarrow> file_entry" where
  "touch_file g f = f\<lparr>st_mtime := g f\<rparr>"

fun touch :: "(file_entry \<Rightarrow> real) \<Rightarrow> dir \<Rightarrow> dir" where
  "touch g (Dir name listable removable fs ds) =
     Dir name listable removable (map (touch_file g) fs) (map (touch g) ds)"

definition touch_store :: "(file_entry \<Rightarrow> real) \<Rightarrow> (string \<times> dir) list \<Rightarrow> (string \<times> dir) list" where
  "touch_store g fs = map (\<lambda>(k, t). (k, touch g t)) fs"


subsection \<open>Benchmarks: the CPU test\<close>

text \<open>
  The inner \<^verbatim>\<open>while\<close> loop of \<^verbatim>\<open>bench_cpu\<close> for the candidate \<open>i\<close>, from the divisor
  \<open>j\<close>: the value \<^verbatim>\<open>prime\<close> has when the loop ends. The source starts it at
  \<open>j = 2\<close>. Python's integers are unbounded, and its \<^verbatim>\<open>%\<close> on a positive divisor is
  \<open>mod\<close>.
\<close>

function trial_division :: "int \<Rightarrow> int \<Rightarrow> bool" where
  "trial_division i j =
     (if j * j \<le> i then (if i mod j = 0 then False else trial_division i (j + 1)) else True)"
  by pat_completeness auto

termination
proof (relation "measure (\<lambda>(i, j). nat (i + 1 - j))")
  show "wf (measure (\<lambda>(i, j). nat (i + 1 - j)))" by simp
next
  fix i j :: int
  assume a: "j * j \<le> i" "i mod j \<noteq> 0"
  have "j \<le> j * j"
  proof (cases "j \<le> 0")
    case True
    have "0 \<le> j * j" by simp
    with True show ?thesis by linarith
  next
    case False
    then have "1 \<le> j" by simp
    then have "j * 1 \<le> j * j" by (intro mult_left_mono) auto
    then show ?thesis by simp
  qed
  with a show "((i, j + 1), (i, j)) \<in> measure (\<lambda>(i, j). nat (i + 1 - j))" by simp
qed

declare trial_division.simps [simp del]


text \<open>The outer loop: \<^verbatim>\<open>count\<close> after \<^verbatim>\<open>for i in range(2, n)\<close>.\<close>

definition count_primes :: "int \<Rightarrow> int" where
  "count_primes n = fold (\<lambda>i count. if trial_division i 2 then count + 1 else count) [2..n - 1] 0"


text \<open>
  \<open>t0\<close> and \<open>t1\<close> are the two readings of \<^verbatim>\<open>time.time()\<close>, real numbers standing
  for Python's floats; the division raises when they are equal.
\<close>

definition bench_cpu :: "int \<Rightarrow> real \<Rightarrow> real \<Rightarrow> exn + real" where
  "bench_cpu n t0 t1 =
     (let count = count_primes n;
          elapsed = t1 - t0
      in if elapsed = 0 then Inl (ZeroDivisionError ''float division by zero'')
         else Inr (real_of_int count / elapsed))"


text \<open>What being prime means, for the statement about the count.\<close>

definition is_prime :: "int \<Rightarrow> bool" where
  "is_prime p = (1 < p \<and> (\<forall>d. 1 < d \<and> d < p \<longrightarrow> \<not> d dvd p))"


subsection \<open>Startup manager\<close>

text \<open>
  The registry as \<^verbatim>\<open>winreg\<close> shows it: the keys by hive and path, each a map from
  value names to data and type code; whether a key may be opened for reading, and
  whether it may be created or opened for writing. Value names are compared as they
  are written. \<open>winreg_ok\<close> says whether \<^verbatim>\<open>import winreg\<close> succeeds.
\<close>

datatype hive = HKEY_CURRENT_USER | HKEY_LOCAL_MACHINE

datatype reg_data = RegStr string | RegInt int | RegBytes "nat list" | RegMulti "string list"

type_synonym reg_key = "string \<Rightarrow> (reg_data \<times> nat) option"

record registry =
  winreg_ok :: bool
  reg_keys :: "hive \<times> string \<Rightarrow> reg_key option"
  key_readable :: "hive \<times> string \<Rightarrow> bool"
  key_writable :: "hive \<times> string \<Rightarrow> bool"


text \<open>
  The calls of \<^verbatim>\<open>winreg\<close> the program makes. A handle is the hive and path of the
  key it was opened on. \<open>OpenKey_set_value\<close> is \<^verbatim>\<open>OpenKey(hive, src, 0, KEY_SET_VALUE)\<close>.
\<close>

definition OpenKey :: "hive \<Rightarrow> string \<Rightarrow> (hive \<times> string, registry) py" where
  "OpenKey hive path = (\<lambda>r.
     if reg_keys r (hive, path) = None
     then (Inl (FileNotFoundError ''The system cannot find the file specified''), r)
     else if \<not> key_readable r (hive, path) then (Inl (PermissionError ''Access is denied''), r)
     else (Inr (hive, path), r))"

definition QueryValueEx :: "hive \<times> string \<Rightarrow> string \<Rightarrow> (reg_data \<times> nat, registry) py" where
  "QueryValueEx key name = (\<lambda>r.
     case reg_keys r key of
       None \<Rightarrow> (Inl (OtherException ''The handle is invalid''), r)
     | Some k \<Rightarrow>
         (case k name of
            None \<Rightarrow> (Inl (FileNotFoundError ''The system cannot find the file specified''), r)
          | Some vt \<Rightarrow> (Inr vt, r)))"

definition CreateKey :: "hive \<Rightarrow> string \<Rightarrow> (hive \<times> string, registry) py" where
  "CreateKey hive path = (\<lambda>r.
     if \<not> key_writable r (hive, path) then (Inl (PermissionError ''Access is denied''), r)
     else case reg_keys r (hive, path) of
            None \<Rightarrow> (Inr (hive, path), r\<lparr>reg_keys := (reg_keys r)((hive, path) \<mapsto> Map.empty)\<rparr>)
          | Some k \<Rightarrow> (Inr (hive, path), r))"

definition SetValueEx :: "hive \<times> string \<Rightarrow> string \<Rightarrow> nat \<Rightarrow> reg_data \<Rightarrow> (unit, registry) py" where
  "SetValueEx key name vtype val = (\<lambda>r.
     case reg_keys r key of
       None \<Rightarrow> (Inl (OtherException ''The handle is invalid''), r)
     | Some k \<Rightarrow> (Inr (), r\<lparr>reg_keys := (reg_keys r)(key \<mapsto> k(name \<mapsto> (val, vtype)))\<rparr>))"

definition OpenKey_set_value :: "hive \<Rightarrow> string \<Rightarrow> (hive \<times> string, registry) py" where
  "OpenKey_set_value hive path = (\<lambda>r.
     if reg_keys r (hive, path) = None
     then (Inl (FileNotFoundError ''The system cannot find the file specified''), r)
     else if \<not> key_writable r (hive, path) then (Inl (PermissionError ''Access is denied''), r)
     else (Inr (hive, path), r))"

definition DeleteValue :: "hive \<times> string \<Rightarrow> string \<Rightarrow> (unit, registry) py" where
  "DeleteValue key name = (\<lambda>r.
     case reg_keys r key of
       None \<Rightarrow> (Inl (OtherException ''The handle is invalid''), r)
     | Some k \<Rightarrow>
         (case k name of
            None \<Rightarrow> (Inl (FileNotFoundError ''The system cannot find the file specified''), r)
          | Some vt \<Rightarrow> (Inr (), r\<lparr>reg_keys := (reg_keys r)(key \<mapsto> k(name := None))\<rparr>)))"


text \<open>The path \<^verbatim>\<open>Software\Microsoft\Windows\CurrentVersion\Run\<close>.\<close>

definition run_key :: string where
  "run_key = ''Software'' @ [CHR 0x5C] @ ''Microsoft'' @ [CHR 0x5C] @ ''Windows'' @ [CHR 0x5C]
     @ ''CurrentVersion'' @ [CHR 0x5C] @ ''Run''"


text \<open>
  In \<open>toggle_startup\<close> the \<^verbatim>\<open>try\<close> yields \<open>Some (value, vtype)\<close>, or \<open>None\<close> when its
  handler executes \<^verbatim>\<open>return False\<close>; the handler catches \<^verbatim>\<open>FileNotFoundError\<close> only,
  and lines 254 to 256 are outside every \<^verbatim>\<open>try\<close>.
\<close>

definition toggle_startup :: "string \<Rightarrow> string \<Rightarrow> bool \<Rightarrow> (bool, registry) py" where
  "toggle_startup name hive_str disable = (\<lambda>r.
     if \<not> winreg_ok r then py_return False r
     else
       let hive = (if hive_str = ''HKCU'' then HKEY_CURRENT_USER else HKEY_LOCAL_MACHINE);
           base = run_key;
           backup = base @ ''_Disabled_By_Corzz'';
           src = (if disable = False then backup else base);
           dst = (if disable = False then base else backup)
       in py_bind
            (py_try
               (py_bind (OpenKey hive src) (\<lambda>src_key.
                py_bind (QueryValueEx src_key name) (\<lambda>vt. py_return (Some vt))))
               (\<lambda>e. case e of FileNotFoundError m \<Rightarrow> py_return None | _ \<Rightarrow> py_raise e))
            (\<lambda>found. case found of
               None \<Rightarrow> py_return False
             | Some (val, vtype) \<Rightarrow>
                 py_bind (CreateKey hive dst) (\<lambda>dst_key.
                 py_bind (SetValueEx dst_key name vtype val) (\<lambda>_.
                 py_bind (OpenKey_set_value hive src) (\<lambda>k.
                 py_bind (DeleteValue k name) (\<lambda>_.
                 py_return True))))) r)"


text \<open>
  For the statements: the hive a hive string selects, the path of the shadow key, and
  lines 249 to 257 for a given hive, source path and destination path.
\<close>

definition hive_of :: "string \<Rightarrow> hive" where
  "hive_of hive_str = (if hive_str = ''HKCU'' then HKEY_CURRENT_USER else HKEY_LOCAL_MACHINE)"

definition shadow_key :: string where
  "shadow_key = run_key @ ''_Disabled_By_Corzz''"

definition move_value :: "string \<Rightarrow> hive \<Rightarrow> string \<Rightarrow> string \<Rightarrow> (bool, registry) py" where
  "move_value name hive src dst =
     py_bind
       (py_try
          (py_bind (OpenKey hive src) (\<lambda>src_key.
           py_bind (QueryValueEx src_key name) (\<lambda>vt. py_return (Some vt))))
          (\<lambda>e. case e of FileNotFoundError m \<Rightarrow> py_return None | _ \<Rightarrow> py_raise e))
       (\<lambda>found. case found of
          None \<Rightarrow> py_return False
        | Some (val, vtype) \<Rightarrow>
            py_bind (CreateKey hive dst) (\<lambda>dst_key.
            py_bind (SetValueEx dst_key name vtype val) (\<lambda>_.
            py_bind (OpenKey_set_value hive src) (\<lambda>k.
            py_bind (DeleteValue k name) (\<lambda>_.
            py_return True)))))"


subsection \<open>Module start\<close>

text \<open>
  Line 18, \<^verbatim>\<open>LOG_DIR.mkdir(parents=True, exist_ok=True)\<close>, runs when the module is
  loaded, outside every \<^verbatim>\<open>try\<close>: it succeeds when the directory is there or can be
  created. \<open>script\<close> is an action of the program run from a fresh start of the module:
  the action runs only once the module-level statements have run.
\<close>

record boot =
  log_dir_present :: bool
  log_dir_creatable :: bool

definition module_init :: "boot \<Rightarrow> exn + unit" where
  "module_init b =
     (if log_dir_present b \<or> log_dir_creatable b then Inr ()
      else Inl (PermissionError ''Access is denied''))"

definition script :: "boot \<Rightarrow> ('a, 'w) py \<Rightarrow> ('a, 'w) py" where
  "script b action = (\<lambda>w. case module_init b of Inl e \<Rightarrow> (Inl e, w) | Inr u \<Rightarrow> action w)"


subsection \<open>A simulated power configuration tool\<close>

text \<open>
  \<^verbatim>\<open>powercfg\<close> is not part of the repository. For concrete runs the theory uses a
  small simulation of it: the active scheme, the schemes the listing shows, and the
  text the tool prints before the GUID of the active scheme (\<open>''Power Scheme GUID: ''\<close>
  on an English Windows; the text is localised). Activating a scheme that is not
  listed fails with exit code 1; any other command cannot be launched.
\<close>

record pcfg =
  active :: string
  listed :: "string list"
  label :: string

definition powercfg_sim :: "pcfg sys" where
  "powercfg_sim cmd shell timeout s =
     (if cmd = [''powercfg'', ''/list'']
      then (Inr (0, concat (map (\<lambda>g. ''Power Scheme GUID: '' @ g @ [CHR 0x0A]) (listed s)), []), s)
      else if cmd = [''powercfg'', ''/getactivescheme'']
      then (Inr (0, label s @ active s @ ''  (scheme)'' @ [CHR 0x0A], []), s)
      else if length cmd = 3 \<and> take 2 cmd = [''powercfg'', ''/setactive'']
      then (if cmd ! 2 \<in> set (listed s) then (Inr (0, [], []), s\<lparr>active := cmd ! 2\<rparr>)
            else (Inr (1, [], ''Invalid Parameters''), s))
      else if length cmd = 3 \<and> take 2 cmd = [''powercfg'', ''/duplicatescheme'']
      then (Inr (0, [], []), s\<lparr>listed := listed s @ [cmd ! 2]\<rparr>)
      else (Inl (FileNotFoundError ''The system cannot find the file specified''), s))"

definition balanced :: string where
  "balanced = ''381b4222-f694-41f0-9685-ff5bb260df2e''"

definition fresh_world :: "pcfg \<Rightarrow> pcfg world" where
  "fresh_world s = \<lparr>os = s, issued = [], log_file = [], log_writable = True,
     state_file = None, state_writable = True, state_readable = True,
     timestamp = ''2024-01-01 00:00:00'',
     temp_env = ''C:/Users/u/AppData/Local/Temp'', home_temp = ''C:/Users/u/AppData/Local/Temp'',
     files = [], now = 1704067200\<rparr>"

definition english :: pcfg where
  "english = \<lparr>active = balanced, listed = [balanced, POWER_ULTIMATE_GUID],
     label = ''Power Scheme GUID: ''\<rparr>"

definition german :: pcfg where
  "german = \<lparr>active = balanced, listed = [balanced, POWER_ULTIMATE_GUID],
     label = ''GUID des Energieschemas: ''\<rparr>"

definition never_answers :: "pcfg sys" where
  "never_answers cmd shell timeout s = (Inl (TimeoutExpired ''timed out''), s)"

text \<open>A German machine whose state file still holds a scheme saved by an earlier run.\<close>

definition stale_german :: "pcfg world" where
  "stale_german = (fresh_world german)
     \<lparr>state_file := Some (''previous_scheme=a1841308-3541-4fab-bc81-f71556f20b4a'' @ [CHR 0x0A])\<rparr>"

text \<open>A temp directory with an old file, a file that cannot be deleted, a recent file and a subdirectory.\<close>

definition old_file :: file_entry where
  "old_file = \<lparr>fname = ''old.tmp'', st_mtime = 1700000000, st_size = 100,
     stat_ok = True, chmod_ok = True, unlink_ok = True\<rparr>"

definition locked_file :: file_entry where
  "locked_file = \<lparr>fname = ''locked.tmp'', st_mtime = 1700000000, st_size = 50,
     stat_ok = True, chmod_ok = True, unlink_ok = False\<rparr>"

definition new_file :: file_entry where
  "new_file = \<lparr>fname = ''new.tmp'', st_mtime = 1704000000, st_size = 7,
     stat_ok = True, chmod_ok = True, unlink_ok = True\<rparr>"

definition nested_file :: file_entry where
  "nested_file = \<lparr>fname = ''nested.tmp'', st_mtime = 1690000000, st_size = 10,
     stat_ok = True, chmod_ok = True, unlink_ok = True\<rparr>"

definition temp_tree :: dir where
  "temp_tree = Dir ''Temp'' True True [old_file, locked_file, new_file]
     [Dir ''sub'' True True [nested_file] []]"

definition cluttered :: "pcfg world" where
  "cluttered = (fresh_world english)\<lparr>files := [(''C:/Users/u/AppData/Local/Temp'', temp_tree)]\<rparr>"

definition no_fmt :: "nat \<Rightarrow> string" where
  "no_fmt n = []"


text \<open>A registry with two startup entries of the current user, and a machine on which the log directory cannot be created.\<close>

definition startup_registry :: registry where
  "startup_registry = \<lparr>winreg_ok = True,
     reg_keys = (\<lambda>key. if key = (HKEY_CURRENT_USER, run_key)
                  then Some [''OneDrive'' \<mapsto> (RegStr ''C:/OneDrive.exe /background'', 1),
                             ''Updater'' \<mapsto> (RegStr ''%APPDATA%/upd.exe'', 2)]
                  else None),
     key_readable = (\<lambda>key. True), key_writable = (\<lambda>key. True)\<rparr>"

definition locked_out :: boot where
  "locked_out = \<lparr>log_dir_present = False, log_dir_creatable = False\<rparr>"


section \<open>Properties\<close>

subsection \<open>The state-and-exception combinators, the logger and the command runner\<close>


lemma log_simp:
  "log msg w = (Inr (), if log_writable w
      then w\<lparr>log_file := log_file w @ ''['' @ timestamp w @ ''] '' @ msg @ [CHR 0x0A]\<rparr> else w)"
  by (simp add: log_def py_try_def append_log_def py_return_def Let_def)

lemma run_result:
  "fst (run sys cmd shell timeout w) =
     (case fst (sys cmd shell timeout (os w)) of
        Inr p \<Rightarrow> Inr p
      | Inl (TimeoutExpired m) \<Rightarrow> Inr (1, [], ''Timeout'')
      | Inl e \<Rightarrow> Inr (1, [], exn_str e))"
  by (simp add: run_def py_bind_def py_try_def subprocess_run_def py_return_def log_simp
      split: prod.splits sum.splits exn.splits)

lemma run_os: "os (snd (run sys cmd shell timeout w)) = snd (sys cmd shell timeout (os w))"
  by (simp add: run_def py_bind_def py_try_def subprocess_run_def py_return_def log_simp
      split: prod.splits sum.splits exn.splits)

lemma run_issued: "issued (snd (run sys cmd shell timeout w)) = issued w @ [cmd]"
  by (simp add: run_def py_bind_def py_try_def subprocess_run_def py_return_def log_simp
      split: prod.splits sum.splits exn.splits)

lemma run_frame:
  "state_file (snd (run sys cmd shell timeout w)) = state_file w"
  "state_writable (snd (run sys cmd shell timeout w)) = state_writable w"
  "state_readable (snd (run sys cmd shell timeout w)) = state_readable w"
  "log_writable (snd (run sys cmd shell timeout w)) = log_writable w"
  "timestamp (snd (run sys cmd shell timeout w)) = timestamp w"
  by (simp_all add: run_def py_bind_def py_try_def subprocess_run_def py_return_def log_simp
      split: prod.splits sum.splits exn.splits)

lemma run_returns: "\<exists>p. fst (run sys cmd shell timeout w) = Inr p"
  by (simp add: run_result split: sum.splits exn.splits)

lemma run_eq:
  "run sys cmd shell timeout w =
     (Inr (projr (fst (run sys cmd shell timeout w))), snd (run sys cmd shell timeout w))"
  using run_returns[of sys cmd shell timeout w] by (auto simp: prod_eq_iff)

lemma bind_run:
  "py_bind (run sys cmd shell timeout) f w =
     f (projr (fst (run sys cmd shell timeout w))) (snd (run sys cmd shell timeout w))"
  by (subst py_bind_def, subst run_eq) simp

lemma bind_log: "py_bind (log msg) f w = f () (snd (log msg w))"
  by (simp add: py_bind_def log_simp)

lemma log_frame2:
  "os (snd (log msg w)) = os w"
  "issued (snd (log msg w)) = issued w"
  "state_file (snd (log msg w)) = state_file w"
  "state_writable (snd (log msg w)) = state_writable w"
  "state_readable (snd (log msg w)) = state_readable w"
  "log_writable (snd (log msg w)) = log_writable w"
  "timestamp (snd (log msg w)) = timestamp w"
  by (simp_all add: log_simp)

lemma bind_return: "py_bind (py_return v) f w = f v w"
  by (simp add: py_bind_def py_return_def)

lemma get_active_eq:
  "get_active_power_scheme_guid sys w =
     (let r = projr (fst (run sys [''powercfg'', ''/getactivescheme''] False 120 w))
      in (Inr (if fst r = 0 \<and> fst (snd r) \<noteq> [] then search_guid (fst (snd r)) else None),
          snd (run sys [''powercfg'', ''/getactivescheme''] False 120 w)))"
  by (simp add: get_active_power_scheme_guid_def bind_run py_return_def split_beta Let_def
      split: option.splits)


lemma get_active_frame:
  "state_file (snd (get_active_power_scheme_guid sys w)) = state_file w"
  "state_writable (snd (get_active_power_scheme_guid sys w)) = state_writable w"
  "state_readable (snd (get_active_power_scheme_guid sys w)) = state_readable w"
  "log_writable (snd (get_active_power_scheme_guid sys w)) = log_writable w"
  "issued (snd (get_active_power_scheme_guid sys w)) = issued w @ [[''powercfg'', ''/getactivescheme'']]"
  by (simp_all add: get_active_eq Let_def run_frame run_issued)

lemma pre_frame:
  "state_file (enable_ultimate_pre sys w) = state_file w"
  "state_writable (enable_ultimate_pre sys w) = state_writable w"
  "state_readable (enable_ultimate_pre sys w) = state_readable w"
  "log_writable (enable_ultimate_pre sys w) = log_writable w"
  by (simp_all add: enable_ultimate_pre_def bind_run bind_return py_return_def split_beta run_frame)

lemma write_text_try:
  "py_try (write_text text) (\<lambda>e. py_return ()) w =
     (Inr (), if state_writable w then w\<lparr>state_file := Some text\<rparr> else w)"
  by (simp add: py_try_def write_text_def py_return_def)

lemma bind_assoc: "py_bind (py_bind m f) g = py_bind m (\<lambda>x. py_bind (f x) g)"
  by (auto simp: py_bind_def fun_eq_iff split: prod.splits sum.splits)

lemma return_apply: "py_return v w = (Inr v, w)"
  by (simp add: py_return_def)

lemma pre_bind:
  "py_bind (run sys [''powercfg'', ''/list''] False 120) (\<lambda>(rc, out, err).
     py_bind (if \<not> contains (lower (out @ err)) (lower POWER_ULTIMATE_GUID)
              then py_bind (run sys [''powercfg'', ''/duplicatescheme'', POWER_ULTIMATE_GUID] False 120)
                     (\<lambda>_. py_return ())
              else py_return ()) F) w = F () (enable_ultimate_pre sys w)"
  by (simp add: enable_ultimate_pre_def bind_assoc bind_run bind_return return_apply split_beta)

lemma get_active_bind:
  "py_bind (get_active_power_scheme_guid sys) F w =
     F (projr (fst (get_active_power_scheme_guid sys w))) (snd (get_active_power_scheme_guid sys w))"
  by (simp add: py_bind_def get_active_eq Let_def)

lemma write_bind:
  "py_bind (if truthy prev then py_try (write_text t) (\<lambda>e. py_return ()) else py_return ()) F w =
     F () (if truthy prev \<and> state_writable w then w\<lparr>state_file := Some t\<rparr> else w)"
  by (simp add: py_bind_def write_text_try return_apply)

lemma enable_eq:
 "enable_ultimate sys w =
   (let w2 = enable_ultimate_pre sys w;
        prev = projr (fst (get_active_power_scheme_guid sys w2));
        w3 = snd (get_active_power_scheme_guid sys w2);
        w4 = (if truthy prev \<and> state_writable w3
              then w3\<lparr>state_file := Some (''previous_scheme='' @ the prev @ [CHR 0x0A])\<rparr> else w3);
        r = run sys [''powercfg'', ''/setactive'', POWER_ULTIMATE_GUID] False 120 w4;
        ok = (fst (projr (fst r)) = 0)
    in (Inr ok, snd (log (''Ultimate Performance '' @ (if ok then ''enabled'' else ''FAILED'')) (snd r))))"
  unfolding enable_ultimate_def
  apply (subst pre_bind)
  apply (subst get_active_bind)
  apply (subst write_bind)
  apply (simp only: bind_run bind_log Let_def split_beta return_apply)
  done

lemma enable_returns: "\<exists>b. fst (enable_ultimate sys w) = Inr b"
  by (simp add: enable_eq Let_def)

lemma enable_state_file:
  "state_file (snd (enable_ultimate sys w)) =
     (let prev = projr (fst (get_active_power_scheme_guid sys (enable_ultimate_pre sys w)))
      in if truthy prev \<and> state_writable w
         then Some (''previous_scheme='' @ the prev @ [CHR 0x0A]) else state_file w)"
  by (simp add: enable_eq Let_def log_frame2 run_frame get_active_frame pre_frame)

lemma enable_frame:
  "state_writable (snd (enable_ultimate sys w)) = state_writable w"
  "state_readable (snd (enable_ultimate sys w)) = state_readable w"
  by (simp_all add: enable_eq Let_def log_frame2 run_frame get_active_frame pre_frame)

lemma enable_issued:
  "issued (snd (enable_ultimate sys w)) =
     issued (enable_ultimate_pre sys w) @
       [[''powercfg'', ''/getactivescheme''], [''powercfg'', ''/setactive'', POWER_ULTIMATE_GUID]]"
  by (simp add: enable_eq Let_def log_frame2 run_issued get_active_frame)



lemma bind_read:
  "py_bind read_text F w =
     (case state_file w of
        None \<Rightarrow> (Inl (FileNotFoundError ''No such file or directory''), w)
      | Some t \<Rightarrow> if state_readable w then F t w else (Inl (PermissionError ''Permission denied''), w))"
  by (simp add: py_bind_def read_text_def split: option.splits)

lemma bind_lift:
  "py_bind (py_lift r) F w = (case r of Inl e \<Rightarrow> (Inl e, w) | Inr v \<Rightarrow> F v w)"
  by (simp add: py_bind_def py_lift_def split: sum.splits)

lemma restore_try_eq:
  "restore_power_try sys w =
     (if state_file w = None then (Inr (Some False), w)
      else if \<not> state_readable w then (Inl (PermissionError ''Permission denied''), w)
      else case scan_previous None (splitlines (the (state_file w))) of
             Inl e \<Rightarrow> (Inl e, w)
           | Inr prev \<Rightarrow>
               if truthy prev
               then (Inr (Some (fst (projr (fst (run sys [''powercfg'', ''/setactive'', the prev] False 120 w))) = 0)),
                     snd (run sys [''powercfg'', ''/setactive'', the prev] False 120 w))
               else (Inr None, w))"
  by (simp add: restore_power_try_def bind_read bind_lift bind_run return_apply split_beta
      split: option.splits sum.splits)

lemma restore_eq:
  "restore_power sys w =
     (if state_file w = None \<or> \<not> state_readable w then (Inr False, w)
      else case scan_previous None (splitlines (the (state_file w))) of
             Inl e \<Rightarrow> (Inr False, w)
           | Inr prev \<Rightarrow>
               if truthy prev
               then (Inr (fst (projr (fst (run sys [''powercfg'', ''/setactive'', the prev] False 120 w))) = 0),
                     snd (run sys [''powercfg'', ''/setactive'', the prev] False 120 w))
               else (Inr False, w))"
  by (simp add: restore_power_def py_try_def py_bind_def restore_try_eq return_apply
      split: option.splits sum.splits)

lemma guid_char_facts:
  "is_guid_char c \<Longrightarrow> \<not> is_space c \<and> \<not> is_linebreak c \<and> c \<noteq> CHR ''=''"
  by (auto simp: is_guid_char_def is_space_def is_linebreak_def)

lemma splitlines_from_one_line:
  "\<forall>c\<in>set s. \<not> is_linebreak c \<Longrightarrow> splitlines_from cur (s @ [CHR 0x0A]) = [cur @ s]"
proof (induction s arbitrary: cur)
  case Nil
  then show ?case by (simp add: is_linebreak_def)
next
  case (Cons c s)
  obtain d ds where ds: "s @ [CHR 0x0A] = d # ds" by (cases s) auto
  have c: "\<not> is_linebreak c" using Cons.prems by simp
  then have "c \<noteq> CHR 0x0D" by (auto simp: is_linebreak_def)
  then have "splitlines_from cur (c # d # ds) = splitlines_from (cur @ [c]) (d # ds)"
    using c by simp
  then show ?case using Cons.IH[of "cur @ [c]"] Cons.prems ds by simp
qed

lemma strip_id: "\<forall>c\<in>set s. \<not> is_space c \<Longrightarrow> strip s = s"
proof -
  assume a: "\<forall>c\<in>set s. \<not> is_space c"
  have d: "dropWhile is_space t = t" if "\<forall>c\<in>set t. \<not> is_space c" for t
    using that by (cases t) auto
  show ?thesis using a by (simp add: strip_def d)
qed

lemma state_line_roundtrip:
  assumes "list_all is_guid_char g"
  shows "scan_previous None (splitlines (''previous_scheme='' @ g @ [CHR 0x0A])) = Inr (Some g)"
proof -
  have g: "\<forall>c\<in>set g. \<not> is_space c \<and> \<not> is_linebreak c \<and> c \<noteq> CHR ''=''"
    using assms guid_char_facts by (auto simp: list_all_iff)
  have nl: "\<forall>c\<in>set (''previous_scheme='' @ g). \<not> is_linebreak c"
    using g by (auto simp: is_linebreak_def)
  have "splitlines ((''previous_scheme='' @ g) @ [CHR 0x0A]) = [''previous_scheme='' @ g]"
    unfolding splitlines_def using splitlines_from_one_line[OF nl, of "[]"] by simp
  moreover have "startswith (''previous_scheme='' @ g) ''previous_scheme=''"
    by (simp add: startswith_def)
  moreover have "item (split_eq1 (''previous_scheme='' @ g)) 1 = Inr g"
    by (simp add: split_eq1_def item_def)
  moreover have "strip g = g" using g by (simp add: strip_id)
  ultimately show ?thesis by simp
qed


lemma startswith_GUID: "startswith t ''GUID:'' \<longleftrightarrow> take 5 t = ''GUID:''"
proof -
  have "length ''GUID:'' = 5" by simp
  then show ?thesis unfolding startswith_def by (simp only:)
qed

lemma match_guid_at_iff: "match_guid_at t = Some g \<longleftrightarrow> pattern_matches t g"
proof
  assume m: "match_guid_at t = Some g"
  let ?r = "drop 5 t"
  from m have sw: "take 5 t = ''GUID:''"
    and g: "g = take 36 (dropWhile is_space ?r)"
    and len: "length g = 36" and cls: "list_all is_guid_char g"
    by (auto simp: match_guid_at_def startswith_GUID Let_def split: if_splits)
  have "t = take 5 t @ ?r" by simp
  also have "?r = takeWhile is_space ?r @ dropWhile is_space ?r" by simp
  also have "dropWhile is_space ?r = g @ drop 36 (dropWhile is_space ?r)"
    using g by simp
  finally have "t = ''GUID:'' @ takeWhile is_space ?r @ g @ drop 36 (dropWhile is_space ?r)"
    using sw by simp
  moreover have "list_all is_space (takeWhile is_space ?r)"
    by (simp add: list_all_iff) (meson set_takeWhileD)
  ultimately show "pattern_matches t g"
    unfolding pattern_matches_def using len cls by blast
next
  assume "pattern_matches t g"
  then obtain ws rest where t: "t = ''GUID:'' @ ws @ g @ rest"
    and ws: "list_all is_space ws" and len: "length g = 36" and cls: "list_all is_guid_char g"
    unfolding pattern_matches_def by blast
  from len obtain c cs where g: "g = c # cs" by (cases g) auto
  with cls have "\<not> is_space c" using guid_char_facts by simp
  then have "dropWhile is_space (g @ rest) = g @ rest" using g by simp
  moreover have "dropWhile is_space (ws @ g @ rest) = dropWhile is_space (g @ rest)"
    using ws by (intro dropWhile_append2) (simp add: list_all_iff)
  ultimately have "take 36 (dropWhile is_space (drop 5 t)) = g"
    using t len by simp
  then show "match_guid_at t = Some g"
    using t len cls by (simp add: match_guid_at_def startswith_GUID)
qed

lemma search_guid_Some:
  "search_guid s = Some g \<Longrightarrow>
     \<exists>pre t. s = pre @ t \<and> match_guid_at t = Some g \<and>
       (\<forall>pre' t'. s = pre' @ t' \<and> length pre' < length pre \<longrightarrow> match_guid_at t' = None)"
proof (induction s)
  case Nil
  then show ?case by (simp add: match_guid_at_def startswith_def)
next
  case (Cons c cs)
  show ?case
  proof (cases "match_guid_at (c # cs)")
    case (Some h)
    with Cons.prems have "h = g" by simp
    with Some have "c # cs = [] @ (c # cs) \<and> match_guid_at (c # cs) = Some g" by simp
    then show ?thesis by (metis length_0_conv less_nat_zero_code list.size(3))
  next
    case None
    with Cons.prems have "search_guid cs = Some g" by simp
    from Cons.IH[OF this] obtain pre t where cs: "cs = pre @ t" and m: "match_guid_at t = Some g"
      and first: "\<forall>pre' t'. cs = pre' @ t' \<and> length pre' < length pre \<longrightarrow> match_guid_at t' = None"
      by blast
    have "\<forall>pre' t'. c # cs = pre' @ t' \<and> length pre' < length (c # pre) \<longrightarrow> match_guid_at t' = None"
    proof (intro allI impI)
      fix pre' t' assume a: "c # cs = pre' @ t' \<and> length pre' < length (c # pre)"
      show "match_guid_at t' = None"
      proof (cases pre')
        case Nil
        with a None show ?thesis by simp
      next
        case (Cons d ds)
        with a have "cs = ds @ t'" "length ds < length pre" by auto
        with first show ?thesis by blast
      qed
    qed
    moreover have "c # cs = (c # pre) @ t" using cs by simp
    ultimately show ?thesis using m by blast
  qed
qed

lemma search_guid_None: "search_guid s = None \<longleftrightarrow> (\<forall>pre t. s = pre @ t \<longrightarrow> match_guid_at t = None)"
proof (induction s)
  case Nil
  then show ?case by simp
next
  case (Cons c cs)
  show ?case
  proof
    assume n: "search_guid (c # cs) = None"
    then have here: "match_guid_at (c # cs) = None" and "search_guid cs = None"
      by (auto split: option.splits)
    with Cons.IH have later: "\<forall>pre t. cs = pre @ t \<longrightarrow> match_guid_at t = None" by simp
    show "\<forall>pre t. c # cs = pre @ t \<longrightarrow> match_guid_at t = None"
    proof (intro allI impI)
      fix pre t assume a: "c # cs = pre @ t"
      show "match_guid_at t = None"
      proof (cases pre)
        case Nil
        with a here show ?thesis by simp
      next
        case (Cons d ds)
        with a have "cs = ds @ t" by simp
        with later show ?thesis by blast
      qed
    qed
  next
    assume a: "\<forall>pre t. c # cs = pre @ t \<longrightarrow> match_guid_at t = None"
    then have "match_guid_at (c # cs) = None" by (metis append_Nil)
    moreover have "\<forall>pre t. cs = pre @ t \<longrightarrow> match_guid_at t = None"
      using a by (metis append_Cons)
    ultimately show "search_guid (c # cs) = None" using Cons.IH by simp
  qed
qed


lemma succeeded_run:
  "succeeded (fst (run sys cmd shell timeout w)) = (fst (projr (fst (run sys cmd shell timeout w))) = 0)"
  using run_returns[of sys cmd shell timeout w] by (auto simp: split_beta)

lemma get_active_returns: "\<exists>p. fst (get_active_power_scheme_guid sys w) = Inr p"
  by (simp add: get_active_eq Let_def)

lemma get_active_Some:
  "fst (get_active_power_scheme_guid sys w) = Inr (Some g) \<Longrightarrow> length g = 36 \<and> list_all is_guid_char g"
proof -
  assume "fst (get_active_power_scheme_guid sys w) = Inr (Some g)"
  then obtain out where "search_guid out = Some g"
    by (auto simp: get_active_eq Let_def split: if_splits)
  from search_guid_Some[OF this] obtain t where "match_guid_at t = Some g" by blast
  then show ?thesis by (auto simp: match_guid_at_iff pattern_matches_def)
qed

lemma set_active_eq:
  "set_active sys g w =
     (Inr (fst (projr (fst (run sys [''powercfg'', ''/setactive'', g] False 120 w))) = 0),
      snd (run sys [''powercfg'', ''/setactive'', g] False 120 w))"
  by (simp add: set_active_def bind_run return_apply split_beta)

lemma restore_after_enable:
  assumes wr: "state_writable w" and rd: "state_readable w"
    and q: "fst (get_active_power_scheme_guid sys (enable_ultimate_pre sys w)) = Inr (Some g)"
  shows "state_file (snd (enable_ultimate sys w)) = Some (''previous_scheme='' @ g @ [CHR 0x0A])"
    and "restore_power sys (snd (enable_ultimate sys w)) = set_active sys g (snd (enable_ultimate sys w))"
proof -
  from get_active_Some[OF q] have g: "length g = 36" "list_all is_guid_char g" by auto
  then have ne: "g \<noteq> []" by auto
  show sf: "state_file (snd (enable_ultimate sys w)) = Some (''previous_scheme='' @ g @ [CHR 0x0A])"
    using q wr ne by (simp add: enable_state_file)
  have "state_readable (snd (enable_ultimate sys w))" using rd by (simp add: enable_frame)
  then show "restore_power sys (snd (enable_ultimate sys w)) = set_active sys g (snd (enable_ultimate sys w))"
    using sf ne state_line_roundtrip[OF g(2)] by (simp add: restore_eq set_active_eq)
qed

subsection \<open>Temp cleaner\<close>

lemma clean_files_acc:
  "clean_files c fs freed =
     (freed + sum_list (map st_size (filter (completes c) fs)), filter (\<lambda>f. \<not> completes c f) fs)"
  by (induction fs arbitrary: freed)
     (auto simp: completes_def try_delete_def split: sum.splits file_result.splits if_splits)

lemma remove_subdirs_bytes: "sum_list (map tree_bytes (remove_subdirs ds)) = sum_list (map tree_bytes ds)"
proof (induction ds)
  case Nil
  then show ?case by simp
next
  case (Cons d ds)
  then show ?case by (cases d) (auto simp: rmdir_def split: sum.splits if_splits)
qed

lemma walk_bytes:
  "fst (walk_dir c t freed) + tree_bytes (snd (walk_dir c t freed)) = freed + tree_bytes t"
  "fst (walk_dirs c ts freed) + sum_list (map tree_bytes (snd (walk_dirs c ts freed)))
     = freed + sum_list (map tree_bytes ts)"
proof (induction c t freed and c ts freed rule: walk_dir_walk_dirs.induct)
  case (1 cutoff name listable removable fs ds freed)
  show ?case
  proof (cases listable)
    case False
    then show ?thesis by simp
  next
    case True
    obtain freed1 ds1 where w: "walk_dirs cutoff ds freed = (freed1, ds1)" by (cases "walk_dirs cutoff ds freed")
    from "1.IH"[OF _] True w have ih: "freed1 + sum_list (map tree_bytes ds1) = freed + sum_list (map tree_bytes ds)"
      by simp
    have "sum_list (map st_size (filter (completes cutoff) fs))
        + sum_list (map st_size (filter (\<lambda>f. \<not> completes cutoff f) fs)) = sum_list (map st_size fs)"
      by (induction fs) auto
    with ih True w show ?thesis
      by (simp add: clean_files_acc remove_subdirs_bytes)
  qed
next
  case (2 cutoff freed)
  then show ?case by simp
next
  case (3 cutoff d ds freed)
  obtain freed1 d1 where a: "walk_dir cutoff d freed = (freed1, d1)" by (cases "walk_dir cutoff d freed")
  obtain freed2 ds2 where b: "walk_dirs cutoff ds freed1 = (freed2, ds2)" by (cases "walk_dirs cutoff ds freed1")
  from "3.IH"(1) a have "freed1 + tree_bytes d1 = freed + tree_bytes d" by simp
  moreover from "3.IH"(2)[OF a[symmetric]] b have "freed2 + sum_list (map tree_bytes ds2) = freed1 + sum_list (map tree_bytes ds)"
    by simp
  ultimately show ?case using a b by simp
qed

lemma walk_freed:
  "fst (walk_dir c t freed) = freed + sum_list (map st_size (filter (completes c) (visited_files t)))"
  "fst (walk_dirs c ts freed)
     = freed + sum_list (map st_size (filter (completes c) (concat (map visited_files ts))))"
proof (induction c t freed and c ts freed rule: walk_dir_walk_dirs.induct)
  case (1 cutoff name listable removable fs ds freed)
  then show ?case by (cases listable) (simp_all add: clean_files_acc split_beta)
next
  case (2 cutoff freed)
  then show ?case by simp
next
  case (3 cutoff d ds freed)
  obtain freed1 d1 where a: "walk_dir cutoff d freed = (freed1, d1)" by (cases "walk_dir cutoff d freed")
  from "3.IH"(1) a have "freed1 = freed + sum_list (map st_size (filter (completes cutoff) (visited_files d)))"
    by simp
  moreover from "3.IH"(2)[OF a[symmetric]]
  have "fst (walk_dirs cutoff ds freed1)
      = freed1 + sum_list (map st_size (filter (completes cutoff) (concat (map visited_files ds))))" .
  ultimately show ?case using a by (simp add: split_beta)
qed

lemma remove_subdirs_files: "concat (map all_files (remove_subdirs ds)) = concat (map all_files ds)"
proof (induction ds)
  case Nil
  then show ?case by simp
next
  case (Cons d ds)
  then show ?case by (cases d) (auto simp: rmdir_def split: sum.splits if_splits)
qed

lemma walk_keeps:
  "set (all_files (snd (walk_dir c t freed))) \<subseteq> set (all_files t) \<and>
   {f \<in> set (all_files t). \<not> completes c f} \<subseteq> set (all_files (snd (walk_dir c t freed)))"
  "set (concat (map all_files (snd (walk_dirs c ts freed)))) \<subseteq> set (concat (map all_files ts)) \<and>
   {f \<in> set (concat (map all_files ts)). \<not> completes c f}
     \<subseteq> set (concat (map all_files (snd (walk_dirs c ts freed))))"
proof (induction c t freed and c ts freed rule: walk_dir_walk_dirs.induct)
  case (1 cutoff name listable removable fs ds freed)
  show ?case
  proof (cases listable)
    case False
    then show ?thesis by auto
  next
    case True
    obtain freed1 ds1 where w: "walk_dirs cutoff ds freed = (freed1, ds1)" by (cases "walk_dirs cutoff ds freed")
    from "1.IH" True w
    have ih: "set (concat (map all_files ds1)) \<subseteq> set (concat (map all_files ds))"
      "{f \<in> set (concat (map all_files ds)). \<not> completes cutoff f} \<subseteq> set (concat (map all_files ds1))"
      by auto
    have af: "all_files (snd (walk_dir cutoff (Dir name listable removable fs ds) freed))
        = concat (map all_files ds1) @ filter (\<lambda>f. \<not> completes cutoff f) fs"
      using True w by (simp add: clean_files_acc remove_subdirs_files)
    show ?thesis unfolding af using ih by auto
  qed
next
  case (2 cutoff freed)
  then show ?case by simp
next
  case (3 cutoff d ds freed)
  obtain freed1 d1 where a: "walk_dir cutoff d freed = (freed1, d1)" by (cases "walk_dir cutoff d freed")
  obtain freed2 ds2 where b: "walk_dirs cutoff ds freed1 = (freed2, ds2)" by (cases "walk_dirs cutoff ds freed1")
  from "3.IH"(1) a have h1: "set (all_files d1) \<subseteq> set (all_files d)"
    "{f \<in> set (all_files d). \<not> completes cutoff f} \<subseteq> set (all_files d1)" by auto
  from "3.IH"(2)[OF a[symmetric]] b
  have h2: "set (concat (map all_files ds2)) \<subseteq> set (concat (map all_files ds))"
    "{f \<in> set (concat (map all_files ds)). \<not> completes cutoff f} \<subseteq> set (concat (map all_files ds2))"
    by auto
  have "snd (walk_dirs cutoff (d # ds) freed) = d1 # ds2" using a b by simp
  then show ?case using h1 h2 by auto
qed

lemma store_bytes_update:
  assumes "map_of fs k = Some t"
  shows "store_bytes (AList.update k t' fs) + tree_bytes t = store_bytes fs + tree_bytes t'"
proof -
  let ?K = "fst ` set fs"
  have "(k, t) \<in> set fs" using assms by (rule map_of_SomeD)
  then have k: "k \<in> ?K" by (rule image_eqI[rotated]) simp
  have keys: "fst ` set (AList.update k t' fs) = ?K"
    using k AList.dom_update[of k t' fs] by (simp add: insert_absorb)
  have other: "dir_bytes (AList.update k t' fs) j = dir_bytes fs j" if "j \<noteq> k" for j
    using that by (simp add: dir_bytes_def update_conv')
  have fin: "finite ?K" by simp
  have "store_bytes (AList.update k t' fs)
      = dir_bytes (AList.update k t' fs) k + (\<Sum>j \<in> ?K - {k}. dir_bytes (AList.update k t' fs) j)"
    unfolding store_bytes_def keys using sum.remove[OF fin k] by blast
  also have "(\<Sum>j \<in> ?K - {k}. dir_bytes (AList.update k t' fs) j) = (\<Sum>j \<in> ?K - {k}. dir_bytes fs j)"
    by (rule sum.cong) (auto simp: other)
  also have "dir_bytes (AList.update k t' fs) k = tree_bytes t'"
    by (simp add: dir_bytes_def update_conv')
  finally have a: "store_bytes (AList.update k t' fs) = tree_bytes t' + (\<Sum>j \<in> ?K - {k}. dir_bytes fs j)" .
  have "store_bytes fs = dir_bytes fs k + (\<Sum>j \<in> ?K - {k}. dir_bytes fs j)"
    unfolding store_bytes_def using sum.remove[OF fin k] by blast
  then have b: "store_bytes fs = tree_bytes t + (\<Sum>j \<in> ?K - {k}. dir_bytes fs j)"
    using assms by (simp add: dir_bytes_def)
  from a b show ?thesis by simp
qed

lemma clean_targets_bytes:
  "fst (clean_targets c ds fs freed) + store_bytes (snd (clean_targets c ds fs freed))
     = freed + store_bytes fs"
proof (induction c ds fs freed rule: clean_targets.induct)
  case (1 cutoff fs freed)
  then show ?case by simp
next
  case (2 cutoff d ds fs freed)
  show ?case
  proof (cases "map_of fs d")
    case None
    with "2.IH"(1) show ?thesis by simp
  next
    case (Some t)
    obtain freed' t' where w: "walk_dir cutoff t freed = (freed', t')" by (cases "walk_dir cutoff t freed")
    from walk_bytes(1)[of cutoff t freed] w have wb: "freed' + tree_bytes t' = freed + tree_bytes t" by simp
    have e: "clean_targets cutoff (d # ds) fs freed = clean_targets cutoff ds (AList.update d t' fs) freed'"
      using Some w by simp
    from "2.IH"(2)[OF Some w[symmetric]]
    have "fst (clean_targets cutoff ds (AList.update d t' fs) freed')
        + store_bytes (snd (clean_targets cutoff ds (AList.update d t' fs) freed'))
        = freed' + store_bytes (AList.update d t' fs)" .
    moreover from store_bytes_update[OF Some, of t']
    have "store_bytes (AList.update d t' fs) + tree_bytes t = store_bytes fs + tree_bytes t'" .
    ultimately have "fst (clean_targets cutoff ds (AList.update d t' fs) freed')
        + store_bytes (snd (clean_targets cutoff ds (AList.update d t' fs) freed'))
        = freed + store_bytes fs" using wb by linarith
    then show ?thesis unfolding e .
  qed
qed

lemma clean_temp_eq:
  assumes "cutoff_of (now w) older_days = Inr c"
  shows "clean_temp size_fmt include_system aggressive older_days w =
     (let r = clean_targets c (temp_targets include_system aggressive w) (files w) 0
      in (Inr (fst r), snd (log (''Temp cleaned: '' @ size_fmt (fst r)) (w\<lparr>files := snd r\<rparr>))))"
  unfolding clean_temp_def Let_def split_beta assms
  apply (simp only: sum.case)
  apply (subst bind_log)
  apply (simp only: return_apply)
  done

lemma clean_temp_raises:
  "cutoff_of (now w) older_days = Inl e \<Longrightarrow>
     clean_temp size_fmt include_system aggressive older_days w = (Inl e, w)"
  by (simp add: clean_temp_def)

lemma cutoff_of_zero: "cutoff_of t 0 = Inr None"
  by (simp add: cutoff_of_def)

lemma cutoff_of_returns:
  "\<bar>older_days * 86400\<bar> < 2 ^ 1024 - 2 ^ 970 \<Longrightarrow> \<exists>c. cutoff_of t older_days = Inr c"
  by (simp add: cutoff_of_def float_overflows_def)

lemma log_files: "files (snd (log msg w)) = files w"
  by (simp add: log_simp)

lemma clean_temp_accounting:
  assumes "cutoff_of (now w) older_days = Inr c"
  shows "\<exists>freed w'. clean_temp size_fmt include_system aggressive older_days w = (Inr freed, w') \<and>
     freed + store_bytes (files w') = store_bytes (files w)"
  using clean_targets_bytes[of c "temp_targets include_system aggressive w" "files w" 0]
  by (simp add: clean_temp_eq[OF assms] Let_def log_files)

lemma flags_not_complete:
  "\<not> stat_ok (f :: file_entry) \<or> \<not> chmod_ok f \<or> \<not> unlink_ok f \<Longrightarrow> \<not> completes c f"
  by (auto simp: completes_def try_delete_def)

lemma try_delete_touch: "try_delete None (touch_file g f) = try_delete None f"
  by (simp add: try_delete_def touch_file_def)

lemma completes_touch: "completes None (touch_file g f) = completes None f"
  by (simp add: completes_def try_delete_touch)

lemma clean_files_touch:
  "clean_files None (map (touch_file g) fs) freed =
     (fst (clean_files None fs freed), map (touch_file g) (snd (clean_files None fs freed)))"
proof -
  have "filter (completes None) (map (touch_file g) fs) = map (touch_file g) (filter (completes None) fs)"
    by (induction fs) (simp_all add: completes_touch)
  moreover have "filter (\<lambda>f. \<not> completes None f) (map (touch_file g) fs)
      = map (touch_file g) (filter (\<lambda>f. \<not> completes None f) fs)"
    by (induction fs) (simp_all add: completes_touch)
  moreover have "st_size \<circ> touch_file g = st_size"
    by (auto simp: fun_eq_iff touch_file_def)
  ultimately show ?thesis by (simp add: clean_files_acc)
qed

lemma rmdir_touch: "rmdir (touch g d) = rmdir d"
  by (cases d) (simp add: rmdir_def)

lemma remove_subdirs_touch: "remove_subdirs (map (touch g) ds) = map (touch g) (remove_subdirs ds)"
  by (induction ds) (simp_all add: rmdir_touch split: sum.splits)

lemma walk_touch:
  "c = None \<Longrightarrow> walk_dir c (touch g t) freed = (fst (walk_dir c t freed), touch g (snd (walk_dir c t freed)))"
  "c = None \<Longrightarrow> walk_dirs c (map (touch g) ts) freed
     = (fst (walk_dirs c ts freed), map (touch g) (snd (walk_dirs c ts freed)))"
proof (induction c t freed and c ts freed rule: walk_dir_walk_dirs.induct)
  case (1 cutoff name listable removable fs ds freed)
  show ?case
  proof (cases listable)
    case False
    then show ?thesis by simp
  next
    case True
    from "1.IH"[OF _ "1.prems"] True "1.prems"
    have ih: "walk_dirs None (map (touch g) ds) freed
        = (fst (walk_dirs None ds freed), map (touch g) (snd (walk_dirs None ds freed)))" by simp
    show ?thesis
      using True "1.prems" by (simp add: ih clean_files_touch remove_subdirs_touch split_beta)
  qed
next
  case (2 cutoff freed)
  then show ?case by simp
next
  case (3 cutoff d ds freed)
  from "3.IH"(1)[OF "3.prems"]
  have a: "walk_dir cutoff (touch g d) freed = (fst (walk_dir cutoff d freed), touch g (snd (walk_dir cutoff d freed)))" .
  from "3.IH"(2)[OF prod.collapse "3.prems"]
  have b: "walk_dirs cutoff (map (touch g) ds) (fst (walk_dir cutoff d freed))
      = (fst (walk_dirs cutoff ds (fst (walk_dir cutoff d freed))),
         map (touch g) (snd (walk_dirs cutoff ds (fst (walk_dir cutoff d freed)))))" .
  show ?case using a b by (simp add: split_beta)
qed

lemma map_of_touch_store: "map_of (touch_store g fs) k = map_option (touch g) (map_of fs k)"
  by (induction fs) (auto simp: touch_store_def)

lemma update_touch_store: "AList.update k (touch g t) (touch_store g fs) = touch_store g (AList.update k t fs)"
  by (induction fs) (auto simp: touch_store_def)

lemma clean_targets_touch:
  "clean_targets None ds (touch_store g fs) freed =
     (fst (clean_targets None ds fs freed), touch_store g (snd (clean_targets None ds fs freed)))"
proof (induction ds arbitrary: fs freed)
  case Nil
  then show ?case by simp
next
  case (Cons d ds)
  show ?case
  proof (cases "map_of fs d")
    case None
    then show ?thesis using Cons.IH by (simp add: map_of_touch_store)
  next
    case (Some t)
    then show ?thesis
      using Cons.IH by (simp add: map_of_touch_store walk_touch(1) update_touch_store split_beta)
  qed
qed

lemma temp_targets_files: "temp_targets i a (w\<lparr>files := fs\<rparr>) = temp_targets i a w"
  by (simp add: temp_targets_def)

lemma clean_temp_touch:
  "clean_temp size_fmt include_system aggressive 0 (w\<lparr>files := touch_store g (files w)\<rparr>) =
     (fst (clean_temp size_fmt include_system aggressive 0 w),
      (snd (clean_temp size_fmt include_system aggressive 0 w))
        \<lparr>files := touch_store g (files (snd (clean_temp size_fmt include_system aggressive 0 w)))\<rparr>)"
proof -
  have a: "cutoff_of (now w) 0 = Inr None"
    and b: "cutoff_of (now (w\<lparr>files := touch_store g (files w)\<rparr>)) 0 = Inr None"
    by (simp_all add: cutoff_of_zero)
  show ?thesis
    by (simp add: clean_temp_eq[OF a] clean_temp_eq[OF b] Let_def temp_targets_files
        clean_targets_touch log_simp)
qed


subsection \<open>The CPU benchmark\<close>

lemma trial_division_correct:
  "2 \<le> j \<Longrightarrow> 2 \<le> i \<Longrightarrow> (\<forall>d. 2 \<le> d \<and> d < j \<longrightarrow> \<not> d dvd i) \<Longrightarrow> trial_division i j = is_prime i"
proof (induction i j rule: trial_division.induct)
  case (1 i j)
  show ?case
  proof (cases "j * j \<le> i")
    case True
    have "j * 2 \<le> j * j" using "1.prems"(1) by (intro mult_left_mono) auto
    with True have ji: "j < i" using "1.prems"(1) by linarith
    show ?thesis
    proof (cases "i mod j = 0")
      case True
      then have "j dvd i" by auto
      with ji "1.prems"(1) have "\<not> is_prime i" unfolding is_prime_def by force
      with True \<open>j * j \<le> i\<close> show ?thesis by (simp add: trial_division.simps[of i j])
    next
      case False
      then have nd: "\<not> j dvd i" by auto
      have "\<forall>d. 2 \<le> d \<and> d < j + 1 \<longrightarrow> \<not> d dvd i"
      proof (intro allI impI)
        fix d assume "2 \<le> d \<and> d < j + 1"
        then have "d < j \<or> d = j" by auto
        with nd "1.prems"(3) \<open>2 \<le> d \<and> d < j + 1\<close> show "\<not> d dvd i" by auto
      qed
      with "1.IH"[OF True False] "1.prems" have "trial_division i (j + 1) = is_prime i" by simp
      with True False show ?thesis by (simp add: trial_division.simps[of i j])
    qed
  next
    case False
    have "is_prime i" unfolding is_prime_def
    proof (intro conjI allI impI)
      show "1 < i" using "1.prems"(2) by simp
    next
      fix d assume d: "1 < d \<and> d < i"
      show "\<not> d dvd i"
      proof
        assume "d dvd i"
        then obtain k where k: "i = d * k" by (auto simp: dvd_def)
        have "0 < d * k" using k "1.prems"(2) by simp
        with d have kpos: "0 < k" by (simp add: zero_less_mult_iff)
        have "k \<noteq> 1" using k d by auto
        with kpos have k2: "2 \<le> k" by simp
        have "k dvd i" using k by simp
        have "\<not> (2 \<le> d \<and> d < j)" using \<open>d dvd i\<close> "1.prems"(3) by blast
        with d have "j \<le> d" by simp
        moreover have "\<not> (2 \<le> k \<and> k < j)" using \<open>k dvd i\<close> "1.prems"(3) by blast
        with k2 have "j \<le> k" by simp
        ultimately have "j * j \<le> d * k" using "1.prems"(1) by (intro mult_mono) auto
        with k False show False by simp
      qed
    qed
    with False show ?thesis by (simp add: trial_division.simps[of i j])
  qed
qed

lemma fold_count:
  "fold (\<lambda>i count. if P i then count + 1 else count) xs (c::int) = c + int (length (filter P xs))"
  by (induction xs arbitrary: c) auto

lemma count_primes_card: "count_primes n = int (card {p. 2 \<le> p \<and> p < n \<and> is_prime p})"
proof -
  have td: "trial_division i 2 = is_prime i" if "2 \<le> i" for i
    using that by (intro trial_division_correct) auto
  have eq: "filter (\<lambda>i. trial_division i 2) [2..n - 1] = filter is_prime [2..n - 1]"
    by (rule filter_cong) (auto simp: td)
  have s: "{p. 2 \<le> p \<and> p < n \<and> is_prime p} = set (filter is_prime [2..n - 1])" by auto
  have "distinct (filter is_prime [2..n - 1])" by simp
  then have "card (set (filter is_prime [2..n - 1])) = length (filter is_prime [2..n - 1])"
    by (rule distinct_card)
  with s have "card {p. 2 \<le> p \<and> p < n \<and> is_prime p} = length (filter is_prime [2..n - 1])"
    by simp
  then show ?thesis by (simp add: count_primes_def fold_count eq)
qed

lemma bench_cpu_eq:
  "bench_cpu n t0 t1 =
     (if t1 = t0 then Inl (ZeroDivisionError ''float division by zero'')
      else Inr (real_of_int (count_primes n) / (t1 - t0)))"
  by (simp add: bench_cpu_def Let_def)


subsection \<open>Startup manager\<close>

lemma toggle_startup_eq:
  "toggle_startup name hs disable r =
     (if \<not> winreg_ok r then (Inr False, r)
      else if disable then move_value name (hive_of hs) run_key shadow_key r
      else move_value name (hive_of hs) shadow_key run_key r)"
  by (simp add: toggle_startup_def move_value_def hive_of_def shadow_key_def Let_def return_apply)

lemma bind_eq: "m w = (Inr v, w') \<Longrightarrow> py_bind m f w = f v w'"
  by (simp add: py_bind_def)

lemma move_value_ok:
  assumes k: "reg_keys r (h, src) = Some k" and v: "k name = Some (v, t)"
    and rd: "key_readable r (h, src)" and ws: "key_writable r (h, src)" and wd: "key_writable r (h, dst)"
    and ne: "src \<noteq> dst"
  shows "move_value name h src dst r =
     (Inr True, r\<lparr>reg_keys := (reg_keys r)
        ((h, dst) \<mapsto> (case reg_keys r (h, dst) of None \<Rightarrow> Map.empty | Some s \<Rightarrow> s)(name \<mapsto> (v, t)),
         (h, src) \<mapsto> k(name := None))\<rparr>)"
proof -
  let ?s0 = "case reg_keys r (h, dst) of None \<Rightarrow> Map.empty | Some s \<Rightarrow> s"
  let ?r1 = "r\<lparr>reg_keys := (reg_keys r)((h, dst) \<mapsto> ?s0)\<rparr>"
  let ?r2 = "r\<lparr>reg_keys := (reg_keys r)((h, dst) \<mapsto> ?s0(name \<mapsto> (v, t)))\<rparr>"
  have s1: "OpenKey h src r = (Inr (h, src), r)" using k rd by (simp add: OpenKey_def)
  have s2: "QueryValueEx (h, src) name r = (Inr (v, t), r)" using k v by (simp add: QueryValueEx_def)
  have "r\<lparr>reg_keys := (reg_keys r)((h, dst) \<mapsto> s)\<rparr> = r" if "reg_keys r (h, dst) = Some s" for s
    using that by (simp add: map_upd_triv)
  then have s3: "CreateKey h dst r = (Inr (h, dst), ?r1)"
    using wd by (cases "reg_keys r (h, dst)") (simp_all add: CreateKey_def)
  have s4: "SetValueEx (h, dst) name t v ?r1 = (Inr (), ?r2)" by (simp add: SetValueEx_def)
  have k2: "reg_keys ?r2 (h, src) = Some k" using k ne by simp
  have s5: "OpenKey_set_value h src ?r2 = (Inr (h, src), ?r2)"
    using k2 ws by (simp add: OpenKey_set_value_def)
  have s6: "DeleteValue (h, src) name ?r2 = (Inr (), ?r2\<lparr>reg_keys := (reg_keys ?r2)((h, src) \<mapsto> k(name := None))\<rparr>)"
    using k2 v by (simp add: DeleteValue_def)
  have t: "py_try
          (py_bind (OpenKey h src) (\<lambda>src_key.
           py_bind (QueryValueEx src_key name) (\<lambda>vt. py_return (Some vt))))
          (\<lambda>e. case e of FileNotFoundError m \<Rightarrow> py_return None | _ \<Rightarrow> py_raise e) r
       = (Inr (Some (v, t)), r)"
    by (simp add: py_try_def bind_eq[where m = "OpenKey h src", OF s1]
        bind_eq[where m = "QueryValueEx (h, src) name", OF s2] return_apply)
  show ?thesis
    unfolding move_value_def
    apply (subst bind_eq[where m = "py_try a b" for a b, OF t])
    apply (simp only: option.case prod.case)
    apply (subst bind_eq[where m = "CreateKey h dst", OF s3])
    apply (subst bind_eq[where m = "SetValueEx (h, dst) name t v", OF s4])
    apply (subst bind_eq[where m = "OpenKey_set_value h src", OF s5])
    apply (subst bind_eq[where m = "DeleteValue (h, src) name", OF s6])
    apply (simp add: return_apply)
    done
qed

lemma run_neq_shadow: "run_key \<noteq> shadow_key"
  by (simp add: shadow_key_def)


section \<open>The claims\<close>

subsection \<open>C6: the command runner hands every failure back as a result\<close>

text \<open>
  Claim C6. Whatever \<^verbatim>\<open>subprocess.run\<close> does with the command, \<open>run\<close> returns a
  triple and no exception leaves it. When the process times out the triple is
  \<open>(1, , Timeout)\<close>; on any other exception \<open>e\<close> it is \<open>(1, , str(e))\<close>;
  when the process completes it is the process's exit code, output and error output.
\<close>

theorem run_never_raises:
  "(\<exists>rc out err w'. run sys cmd shell timeout w = (Inr (rc, out, err), w')) \<and>
   (\<forall>m os'. sys cmd shell timeout (os w) = (Inl (TimeoutExpired m), os') \<longrightarrow>
      fst (run sys cmd shell timeout w) = Inr (1, [], ''Timeout'')) \<and>
   (\<forall>e os'. sys cmd shell timeout (os w) = (Inl e, os') \<and> (\<forall>m. e \<noteq> TimeoutExpired m) \<longrightarrow>
      fst (run sys cmd shell timeout w) = Inr (1, [], exn_str e)) \<and>
   (\<forall>p os'. sys cmd shell timeout (os w) = (Inr p, os') \<longrightarrow>
      fst (run sys cmd shell timeout w) = Inr p)"
proof (intro conjI allI impI)
  obtain p where "fst (run sys cmd shell timeout w) = Inr p"
    using run_returns by blast
  then show "\<exists>rc out err w'. run sys cmd shell timeout w = (Inr (rc, out, err), w')"
    by (cases p) (metis prod.collapse)
next
  fix m os' assume "sys cmd shell timeout (os w) = (Inl (TimeoutExpired m), os')"
  then show "fst (run sys cmd shell timeout w) = Inr (1, [], ''Timeout'')"
    by (simp add: run_result)
next
  fix e os'
  assume "sys cmd shell timeout (os w) = (Inl e, os') \<and> (\<forall>m. e \<noteq> TimeoutExpired m)"
  then show "fst (run sys cmd shell timeout w) = Inr (1, [], exn_str e)"
    by (cases e) (simp_all add: run_result)
next
  fix p os' assume "sys cmd shell timeout (os w) = (Inr p, os')"
  then show "fst (run sys cmd shell timeout w) = Inr p"
    by (simp add: run_result)
qed

theorem run_never_raises_witness:
  "fst (run never_answers [''powercfg'', ''/list''] False 120 (fresh_world english))
     = Inr (1, [], ''Timeout'') \<and>
   fst (run powercfg_sim [''powercfg.exe''] False 120 (fresh_world english))
     = Inr (1, [], ''The system cannot find the file specified'') \<and>
   fst (run powercfg_sim [''powercfg'', ''/setactive'', balanced] False 120 (fresh_world english))
     = Inr (0, [], [])"
  using run_never_raises [of never_answers "[''powercfg'', ''/list'']" False 120 "fresh_world english"]
    run_never_raises [of powercfg_sim "[''powercfg.exe'']" False 120 "fresh_world english"]
    run_never_raises [of powercfg_sim "[''powercfg'', ''/setactive'', balanced]" False 120 "fresh_world english"]
  by (simp add: never_answers_def powercfg_sim_def fresh_world_def english_def balanced_def)

subsection \<open>C3: nothing to restore\<close>

text \<open>
  Claim C3. When the state file is absent, \<open>restore_power\<close> returns \<open>False\<close> and
  leaves the machine as it was: no command is issued (the history \<open>issued\<close> and the
  system state \<open>os\<close> are those of before), so the active scheme is unchanged.
\<close>

theorem restore_power_without_state:
  "state_file w = None \<Longrightarrow> restore_power sys w = (Inr False, w)"
  by (simp add: restore_eq)

theorem restore_power_without_state_witness:
  "state_file (fresh_world english) = None \<and>
   restore_power powercfg_sim (fresh_world english) = (Inr False, fresh_world english)"
  using restore_power_without_state [of "fresh_world english" powercfg_sim]
  by (simp add: fresh_world_def)

subsection \<open>C10: what enable_ultimate saves\<close>

text \<open>
  Claim C10. \<open>enable_ultimate\<close> writes the state file only when the query of the active
  scheme, made in the state \<open>enable_ultimate_pre\<close> reaches, yields a GUID. When the query
  yields nothing (the command failed, or its output has no match), the state file,
  present or absent, is left as it was, and the function still activates the Ultimate
  scheme: its result is whether that command exited with code 0. When the query yields
  \<open>g\<close>, the file becomes \<^verbatim>\<open>previous_scheme=g\<close> if it can be written and is left as it
  was otherwise. In every case no exception leaves the function and the last command
  issued is the activation of the Ultimate scheme.
\<close>

theorem enable_ultimate_saves_only_parsed_scheme:
  "(fst (get_active_power_scheme_guid sys (enable_ultimate_pre sys w)) = Inr None \<longrightarrow>
      state_file (snd (enable_ultimate sys w)) = state_file w \<and>
      fst (enable_ultimate sys w) =
        Inr (succeeded (fst (run sys [''powercfg'', ''/setactive'', POWER_ULTIMATE_GUID] False 120
               (snd (get_active_power_scheme_guid sys (enable_ultimate_pre sys w))))))) \<and>
   (\<forall>g. fst (get_active_power_scheme_guid sys (enable_ultimate_pre sys w)) = Inr (Some g) \<longrightarrow>
      state_file (snd (enable_ultimate sys w)) =
        (if state_writable w then Some (''previous_scheme='' @ g @ [CHR 0x0A]) else state_file w)) \<and>
   (state_file (snd (enable_ultimate sys w)) \<noteq> state_file w \<longrightarrow>
      (\<exists>g. fst (get_active_power_scheme_guid sys (enable_ultimate_pre sys w)) = Inr (Some g))) \<and>
   (\<exists>b. fst (enable_ultimate sys w) = Inr b) \<and>
   last (issued (snd (enable_ultimate sys w))) = [''powercfg'', ''/setactive'', POWER_ULTIMATE_GUID]"
proof (intro conjI allI impI)
  assume q: "fst (get_active_power_scheme_guid sys (enable_ultimate_pre sys w)) = Inr None"
  then show "state_file (snd (enable_ultimate sys w)) = state_file w"
    by (simp add: enable_state_file)
  from q show "fst (enable_ultimate sys w) =
        Inr (succeeded (fst (run sys [''powercfg'', ''/setactive'', POWER_ULTIMATE_GUID] False 120
               (snd (get_active_power_scheme_guid sys (enable_ultimate_pre sys w))))))"
    by (simp add: enable_eq Let_def succeeded_run)
next
  fix g assume q: "fst (get_active_power_scheme_guid sys (enable_ultimate_pre sys w)) = Inr (Some g)"
  from get_active_Some[OF q] have "g \<noteq> []" by auto
  with q show "state_file (snd (enable_ultimate sys w)) =
        (if state_writable w then Some (''previous_scheme='' @ g @ [CHR 0x0A]) else state_file w)"
    by (simp add: enable_state_file)
next
  assume ch: "state_file (snd (enable_ultimate sys w)) \<noteq> state_file w"
  obtain p where p: "fst (get_active_power_scheme_guid sys (enable_ultimate_pre sys w)) = Inr p"
    using get_active_returns by blast
  with ch show "\<exists>g. fst (get_active_power_scheme_guid sys (enable_ultimate_pre sys w)) = Inr (Some g)"
    by (cases p) (simp_all add: enable_state_file)
next
  show "\<exists>b. fst (enable_ultimate sys w) = Inr b" by (rule enable_returns)
next
  show "last (issued (snd (enable_ultimate sys w))) = [''powercfg'', ''/setactive'', POWER_ULTIMATE_GUID]"
    by (simp add: enable_issued)
qed

theorem enable_ultimate_saves_only_parsed_scheme_witness:
  "state_file (snd (enable_ultimate powercfg_sim stale_german)) = state_file stale_german \<and>
   fst (enable_ultimate powercfg_sim stale_german) = Inr True \<and>
   state_file (snd (enable_ultimate powercfg_sim (fresh_world english)))
     = Some (''previous_scheme='' @ balanced @ [CHR 0x0A]) \<and>
   state_file (fresh_world english) = None"
proof -
  have q1: "fst (get_active_power_scheme_guid powercfg_sim
      (enable_ultimate_pre powercfg_sim stale_german)) = Inr None"
    by code_simp
  have q2: "fst (get_active_power_scheme_guid powercfg_sim
      (enable_ultimate_pre powercfg_sim (fresh_world english))) = Inr (Some balanced)"
    by code_simp
  have ok: "succeeded (fst (run powercfg_sim [''powercfg'', ''/setactive'', POWER_ULTIMATE_GUID] False 120
      (snd (get_active_power_scheme_guid powercfg_sim (enable_ultimate_pre powercfg_sim stale_german)))))"
    by code_simp
  have wr: "state_writable (fresh_world english)" "state_file (fresh_world english) = None"
    by (simp_all add: fresh_world_def)
  show ?thesis
    using enable_ultimate_saves_only_parsed_scheme [of powercfg_sim stale_german]
      enable_ultimate_saves_only_parsed_scheme [of powercfg_sim "fresh_world english"] q1 q2 ok wr
    by simp
qed

subsection \<open>C1: enable, then restore\<close>

text \<open>
  Claim C1, as amended. Let the state file be writable and readable. If the query of
  the active scheme made by \<open>enable_ultimate\<close> yields the GUID \<open>g\<close>, then
  \<open>restore_power\<close>, called next, does exactly what activating \<open>g\<close> does: it issues
  \<^verbatim>\<open>powercfg /setactive g\<close> and returns whether that command exited with code 0. If a
  second \<open>enable_ultimate\<close> follows the first and its query yields the Ultimate GUID,
  the state file then names the Ultimate scheme and \<open>restore_power\<close> activates that
  scheme.

  The claim as stated asks this of every run in which \<open>enable_ultimate\<close> succeeds. It
  fails where the query yields nothing although the activation succeeds, which is the
  case on a machine whose \<^verbatim>\<open>powercfg\<close> prints a localised label (the pattern looks for
  \<^verbatim>\<open>GUID:\<close>): nothing is saved, and \<open>restore_power\<close> returns \<open>False\<close> with the
  Ultimate scheme still active.
\<close>

theorem enable_ultimate_then_restore_power:
  assumes "state_writable w" and "state_readable w"
  shows
    "(\<forall>g. fst (get_active_power_scheme_guid sys (enable_ultimate_pre sys w)) = Inr (Some g) \<longrightarrow>
        restore_power sys (snd (enable_ultimate sys w)) = set_active sys g (snd (enable_ultimate sys w))) \<and>
     (fst (get_active_power_scheme_guid sys (enable_ultimate_pre sys (snd (enable_ultimate sys w))))
          = Inr (Some POWER_ULTIMATE_GUID) \<longrightarrow>
        state_file (snd (enable_ultimate sys (snd (enable_ultimate sys w))))
          = Some (''previous_scheme='' @ POWER_ULTIMATE_GUID @ [CHR 0x0A]) \<and>
        restore_power sys (snd (enable_ultimate sys (snd (enable_ultimate sys w))))
          = set_active sys POWER_ULTIMATE_GUID (snd (enable_ultimate sys (snd (enable_ultimate sys w)))))"
proof (intro conjI allI impI)
  fix g assume "fst (get_active_power_scheme_guid sys (enable_ultimate_pre sys w)) = Inr (Some g)"
  with assms show "restore_power sys (snd (enable_ultimate sys w)) = set_active sys g (snd (enable_ultimate sys w))"
    by (rule restore_after_enable(2))
next
  let ?w1 = "snd (enable_ultimate sys w)"
  assume q: "fst (get_active_power_scheme_guid sys (enable_ultimate_pre sys ?w1)) = Inr (Some POWER_ULTIMATE_GUID)"
  have wr: "state_writable ?w1" and rd: "state_readable ?w1"
    using assms by (simp_all add: enable_frame)
  show "state_file (snd (enable_ultimate sys ?w1)) = Some (''previous_scheme='' @ POWER_ULTIMATE_GUID @ [CHR 0x0A])"
    using wr rd q by (rule restore_after_enable(1))
  show "restore_power sys (snd (enable_ultimate sys ?w1)) = set_active sys POWER_ULTIMATE_GUID (snd (enable_ultimate sys ?w1))"
    using wr rd q by (rule restore_after_enable(2))
qed

theorem enable_ultimate_then_restore_power_witness:
  "state_writable (fresh_world english) \<and> state_readable (fresh_world english) \<and>
   active (os (fresh_world english)) = balanced \<and>
   fst (enable_ultimate powercfg_sim (fresh_world english)) = Inr True \<and>
   restore_power powercfg_sim (snd (enable_ultimate powercfg_sim (fresh_world english)))
     = set_active powercfg_sim balanced (snd (enable_ultimate powercfg_sim (fresh_world english))) \<and>
   active (os (snd (restore_power powercfg_sim (snd (enable_ultimate powercfg_sim (fresh_world english))))))
     = balanced \<and>
   restore_power powercfg_sim
       (snd (enable_ultimate powercfg_sim (snd (enable_ultimate powercfg_sim (fresh_world english)))))
     = set_active powercfg_sim POWER_ULTIMATE_GUID
       (snd (enable_ultimate powercfg_sim (snd (enable_ultimate powercfg_sim (fresh_world english))))) \<and>
   active (os (snd (restore_power powercfg_sim
       (snd (enable_ultimate powercfg_sim (snd (enable_ultimate powercfg_sim (fresh_world english))))))))
     = POWER_ULTIMATE_GUID"
proof -
  have wr: "state_writable (fresh_world english)" and rd: "state_readable (fresh_world english)"
    by (simp_all add: fresh_world_def)
  have a0: "active (os (fresh_world english)) = balanced" by (simp add: fresh_world_def english_def)
  have q1: "fst (get_active_power_scheme_guid powercfg_sim
      (enable_ultimate_pre powercfg_sim (fresh_world english))) = Inr (Some balanced)"
    by code_simp
  have q2: "fst (get_active_power_scheme_guid powercfg_sim
      (enable_ultimate_pre powercfg_sim (snd (enable_ultimate powercfg_sim (fresh_world english)))))
      = Inr (Some POWER_ULTIMATE_GUID)"
    by code_simp
  have ok: "fst (enable_ultimate powercfg_sim (fresh_world english)) = Inr True" by code_simp
  have a1: "active (os (snd (restore_power powercfg_sim
      (snd (enable_ultimate powercfg_sim (fresh_world english)))))) = balanced" by code_simp
  have a2: "active (os (snd (restore_power powercfg_sim
       (snd (enable_ultimate powercfg_sim (snd (enable_ultimate powercfg_sim (fresh_world english))))))))
     = POWER_ULTIMATE_GUID" by code_simp
  show ?thesis
    using enable_ultimate_then_restore_power [OF wr rd, of powercfg_sim] wr rd a0 q1 q2 ok a1 a2
    by simp
qed

theorem enable_ultimate_then_restore_power_counterexample:
  "active (os (fresh_world german)) = balanced \<and>
   fst (enable_ultimate powercfg_sim (fresh_world german)) = Inr True \<and>
   restore_power powercfg_sim (snd (enable_ultimate powercfg_sim (fresh_world german)))
     = (Inr False, snd (enable_ultimate powercfg_sim (fresh_world german))) \<and>
   active (os (snd (restore_power powercfg_sim (snd (enable_ultimate powercfg_sim (fresh_world german))))))
     = POWER_ULTIMATE_GUID \<and> POWER_ULTIMATE_GUID \<noteq> balanced"
  by code_simp

subsection \<open>C7: the active scheme, parsed\<close>

text \<open>
  Claim C7, as amended. \<open>get_active_power_scheme_guid\<close> never raises. It returns the
  result of the search on the output of \<^verbatim>\<open>powercfg /getactivescheme\<close> when the command
  exits with code 0 and prints something, and \<open>None\<close> otherwise (a failed command, no
  output, no match); it never returns the string \<^verbatim>\<open>unknown\<close>, which only the menu
  prints for \<open>None\<close>. The search returns group 1 of the leftmost match of the pattern:
  36 characters, each a hexadecimal digit of either case or a hyphen, that follow the
  literal \<^verbatim>\<open>GUID:\<close> and any white space; it returns \<open>None\<close> exactly when the pattern
  matches nowhere. The pattern does not ask for the 8-4-4-4-12 shape of a GUID.
\<close>

theorem get_active_power_scheme_guid_parses:
  "fst (get_active_power_scheme_guid sys w) =
     Inr (case fst (sys [''powercfg'', ''/getactivescheme''] False 120 (os w)) of
            Inr (rc, out, err) \<Rightarrow> if rc = 0 \<and> out \<noteq> [] then search_guid out else None
          | Inl e \<Rightarrow> None) \<and>
   (\<forall>out g. search_guid out = Some g \<longrightarrow>
      (\<exists>pre t. out = pre @ t \<and> pattern_matches t g \<and>
         (\<forall>pre' t' g'. out = pre' @ t' \<and> length pre' < length pre \<longrightarrow> \<not> pattern_matches t' g'))) \<and>
   (\<forall>out. search_guid out = None \<longleftrightarrow> (\<forall>pre t g. out = pre @ t \<longrightarrow> \<not> pattern_matches t g))"
proof (intro conjI allI impI)
  show "fst (get_active_power_scheme_guid sys w) =
     Inr (case fst (sys [''powercfg'', ''/getactivescheme''] False 120 (os w)) of
            Inr (rc, out, err) \<Rightarrow> if rc = 0 \<and> out \<noteq> [] then search_guid out else None
          | Inl e \<Rightarrow> None)"
    by (simp add: get_active_eq Let_def run_result split: sum.splits exn.splits)
next
  fix out g assume "search_guid out = Some g"
  from search_guid_Some[OF this] obtain pre t where o: "out = pre @ t" and m: "match_guid_at t = Some g"
    and first: "\<forall>pre' t'. out = pre' @ t' \<and> length pre' < length pre \<longrightarrow> match_guid_at t' = None"
    by blast
  have "\<forall>pre' t' g'. out = pre' @ t' \<and> length pre' < length pre \<longrightarrow> \<not> pattern_matches t' g'"
    using first by (metis match_guid_at_iff option.distinct(1))
  with o m show "\<exists>pre t. out = pre @ t \<and> pattern_matches t g \<and>
         (\<forall>pre' t' g'. out = pre' @ t' \<and> length pre' < length pre \<longrightarrow> \<not> pattern_matches t' g')"
    using match_guid_at_iff by blast
next
  fix out
  show "search_guid out = None \<longleftrightarrow> (\<forall>pre t g. out = pre @ t \<longrightarrow> \<not> pattern_matches t g)"
    unfolding search_guid_None
    by (metis match_guid_at_iff option.distinct(1) option.exhaust)
qed

theorem get_active_power_scheme_guid_parses_witness:
  "fst (get_active_power_scheme_guid powercfg_sim (fresh_world english)) = Inr (Some balanced) \<and>
   fst (get_active_power_scheme_guid powercfg_sim (fresh_world german)) = Inr None"
proof -
  have e: "(case fst (powercfg_sim [''powercfg'', ''/getactivescheme''] False 120 (os (fresh_world english))) of
            Inr (rc, out, err) \<Rightarrow> if rc = 0 \<and> out \<noteq> [] then search_guid out else None
          | Inl e \<Rightarrow> None) = Some balanced"
    by code_simp
  have g: "(case fst (powercfg_sim [''powercfg'', ''/getactivescheme''] False 120 (os (fresh_world german))) of
            Inr (rc, out, err) \<Rightarrow> if rc = 0 \<and> out \<noteq> [] then search_guid out else None
          | Inl e \<Rightarrow> None) = None"
    by code_simp
  show ?thesis
    using get_active_power_scheme_guid_parses [of powercfg_sim "fresh_world english"]
      get_active_power_scheme_guid_parses [of powercfg_sim "fresh_world german"] e g
    by simp
qed

theorem get_active_power_scheme_guid_counterexample:
  "fst (get_active_power_scheme_guid never_answers (fresh_world english)) = Inr None \<and>
   fst (get_active_power_scheme_guid never_answers (fresh_world english)) \<noteq> Inr (Some ''unknown'') \<and>
   fst (get_active_power_scheme_guid powercfg_sim (fresh_world german)) \<noteq> Inr (Some ''unknown'') \<and>
   search_guid (''GUID: '' @ replicate 36 (CHR ''-'')) = Some (replicate 36 (CHR ''-''))"
  by code_simp

subsection \<open>C4: a file that cannot be deleted is skipped and not counted\<close>

text \<open>
  Claim C4. Once the cutoff of line 137 is computed, which is before any file is
  visited, \<open>clean_temp\<close> returns a total and raises nothing, whatever happens to the
  files. The cutoff is computed for every \<^verbatim>\<open>older_days\<close> whose product with 86400
  stays below \<open>2 ^ 1024 - 2 ^ 970\<close> in absolute value; beyond that line 137 raises
  \<^verbatim>\<open>OverflowError\<close> and no file is visited. The total is exact: together with the bytes
  still held by the directory trees afterwards it makes up the bytes they held before,
  so it counts the files that are gone and nothing else. A walk adds to the total the
  sizes of exactly those visited files whose sequence of \<^verbatim>\<open>stat\<close>, \<^verbatim>\<open>chmod\<close> and
  \<^verbatim>\<open>unlink\<close> ran to its end. A file on which one of them fails, or raises, is not
  counted and is still in the tree afterwards, and the loop goes on with the next file
  and the same total.
\<close>

theorem clean_temp_counts_only_deleted:
  "(\<forall>c. cutoff_of (now w) older_days = Inr c \<longrightarrow>
      (\<exists>freed w'. clean_temp size_fmt include_system aggressive older_days w = (Inr freed, w') \<and>
         freed + store_bytes (files w') = store_bytes (files w))) \<and>
   (\<bar>older_days * 86400\<bar> < 2 ^ 1024 - 2 ^ 970 \<longrightarrow>
      (\<exists>c. cutoff_of (now w) older_days = Inr c)) \<and>
   (\<forall>e. cutoff_of (now w) older_days = Inl e \<longrightarrow>
      clean_temp size_fmt include_system aggressive older_days w = (Inl e, w)) \<and>
   (\<forall>c t freed. fst (walk_dir c t freed)
      = freed + sum_list (map st_size (filter (completes c) (visited_files t)))) \<and>
   (\<forall>c (f :: file_entry). \<not> stat_ok f \<or> \<not> chmod_ok f \<or> \<not> unlink_ok f \<longrightarrow> \<not> completes c f) \<and>
   (\<forall>c t freed f. f \<in> set (all_files t) \<and> (\<not> stat_ok f \<or> \<not> chmod_ok f \<or> \<not> unlink_ok f) \<longrightarrow>
      f \<in> set (all_files (snd (walk_dir c t freed)))) \<and>
   (\<forall>c t freed f e. f \<in> set (all_files t) \<and> try_delete c f = Inl e \<longrightarrow>
      f \<in> set (all_files (snd (walk_dir c t freed)))) \<and>
   (\<forall>c f fs freed e. try_delete c f = Inl e \<longrightarrow>
      clean_files c (f # fs) freed = (fst (clean_files c fs freed), f # snd (clean_files c fs freed)))"
proof (intro conjI allI impI)
  fix c assume "cutoff_of (now w) older_days = Inr c"
  then show "\<exists>freed w'. clean_temp size_fmt include_system aggressive older_days w = (Inr freed, w') \<and>
      freed + store_bytes (files w') = store_bytes (files w)"
    by (rule clean_temp_accounting)
next
  assume "\<bar>older_days * 86400\<bar> < 2 ^ 1024 - 2 ^ 970"
  then show "\<exists>c. cutoff_of (now w) older_days = Inr c" by (rule cutoff_of_returns)
next
  fix e assume "cutoff_of (now w) older_days = Inl e"
  then show "clean_temp size_fmt include_system aggressive older_days w = (Inl e, w)"
    by (rule clean_temp_raises)
next
  fix c t freed
  show "fst (walk_dir c t freed) = freed + sum_list (map st_size (filter (completes c) (visited_files t)))"
    by (rule walk_freed(1))
next
  fix c and f :: file_entry assume "\<not> stat_ok f \<or> \<not> chmod_ok f \<or> \<not> unlink_ok f"
  then show "\<not> completes c f" by (rule flags_not_complete)
next
  fix c t freed f
  assume a: "f \<in> set (all_files t) \<and> (\<not> stat_ok f \<or> \<not> chmod_ok f \<or> \<not> unlink_ok f)"
  then have "\<not> completes c f" using flags_not_complete by blast
  with a walk_keeps(1)[of c t freed] show "f \<in> set (all_files (snd (walk_dir c t freed)))" by blast
next
  fix c t freed f e
  assume a: "f \<in> set (all_files t) \<and> try_delete c f = Inl e"
  then have "\<not> completes c f" by (simp add: completes_def)
  with a walk_keeps(1)[of c t freed] show "f \<in> set (all_files (snd (walk_dir c t freed)))" by blast
next
  fix c f fs freed e
  assume "try_delete c f = Inl e"
  then show "clean_files c (f # fs) freed = (fst (clean_files c fs freed), f # snd (clean_files c fs freed))"
    by (simp add: split_beta)
qed

theorem clean_temp_counts_only_deleted_witness:
  "cutoff_of (now cluttered) 7 = Inr (Some 1703462400) \<and>
   \<not> unlink_ok locked_file \<and>
   try_delete (Some 1703462400) locked_file = Inl (PermissionError ''unlink'') \<and>
   locked_file \<in> set (all_files temp_tree) \<and>
   locked_file \<in> set (all_files (snd (walk_dir (Some 1703462400) temp_tree 0))) \<and>
   fst (walk_dir (Some 1703462400) temp_tree 0) = 110 \<and>
   fst (clean_temp no_fmt True False 7 cluttered) = Inr 110 \<and>
   store_bytes (files cluttered) = 167 \<and>
   store_bytes (files (snd (clean_temp no_fmt True False 7 cluttered))) = 57 \<and>
   cutoff_of (now cluttered) (10 ^ 400) = Inl (OverflowError ''int too large to convert to float'') \<and>
   clean_temp no_fmt True False (10 ^ 400) cluttered
     = (Inl (OverflowError ''int too large to convert to float''), cluttered)"
proof -
  have k: "cutoff_of (now cluttered) 7 = Inr (Some 1703462400)" by code_simp
  have u: "\<not> unlink_ok locked_file" by (simp add: locked_file_def)
  have a: "try_delete (Some 1703462400) locked_file = Inl (PermissionError ''unlink'')"
    by code_simp
  have b: "locked_file \<in> set (all_files temp_tree)" by code_simp
  have c: "sum_list (map st_size (filter (completes (Some 1703462400)) (visited_files temp_tree))) = 110"
    by code_simp
  have d: "fst (clean_temp no_fmt True False 7 cluttered) = Inr 110" by code_simp
  have e: "store_bytes (files cluttered) = 167" by code_simp
  have o: "cutoff_of (now cluttered) (10 ^ 400) = Inl (OverflowError ''int too large to convert to float'')"
    by code_simp
  note T = clean_temp_counts_only_deleted [of cluttered 7 no_fmt True False]
  note O = clean_temp_counts_only_deleted [of cluttered "10 ^ 400" no_fmt True False]
  note T1 = T[THEN conjunct1, rule_format]
  note T4 = T[THEN conjunct2, THEN conjunct2, THEN conjunct2, THEN conjunct1, rule_format]
  note T6 = T[THEN conjunct2, THEN conjunct2, THEN conjunct2, THEN conjunct2, THEN conjunct2,
      THEN conjunct1, rule_format]
  note O3 = O[THEN conjunct2, THEN conjunct2, THEN conjunct1, rule_format]
  from T1[OF k] obtain freed w' where
    "clean_temp no_fmt True False 7 cluttered = (Inr freed, w')"
    "freed + store_bytes (files w') = store_bytes (files cluttered)" by blast
  with d e have s: "store_bytes (files (snd (clean_temp no_fmt True False 7 cluttered))) = 57"
    by simp
  from T4[of "Some 1703462400" temp_tree 0] c
  have f: "fst (walk_dir (Some 1703462400) temp_tree 0) = 110" by simp
  from b u have "locked_file \<in> set (all_files temp_tree) \<and>
      (\<not> stat_ok locked_file \<or> \<not> chmod_ok locked_file \<or> \<not> unlink_ok locked_file)" by simp
  from T6[OF this]
  have g: "locked_file \<in> set (all_files (snd (walk_dir (Some 1703462400) temp_tree 0)))" .
  from O3[OF o] have r: "clean_temp no_fmt True False (10 ^ 400) cluttered
     = (Inl (OverflowError ''int too large to convert to float''), cluttered)" .
  show ?thesis using k u a b d e s f g o r by simp
qed


subsection \<open>C5: zero days means no age check\<close>

text \<open>
  Claim C5. With \<^verbatim>\<open>older_days = 0\<close> line 137 does no arithmetic and there is no
  cutoff: \<open>clean_temp\<close> returns a total, no file is skipped for its age, a file on
  which \<^verbatim>\<open>stat\<close>, \<^verbatim>\<open>chmod\<close> and \<^verbatim>\<open>unlink\<close> succeed is deleted and counted whatever its
  modification time, and giving the files any other modification times changes neither
  the total \<open>clean_temp\<close> returns nor the trees it leaves (up to those times).
\<close>

theorem clean_temp_zero_days_no_cutoff:
  "cutoff_of t 0 = Inr None \<and>
   (\<exists>freed w'. clean_temp size_fmt include_system aggressive 0 w = (Inr freed, w')) \<and>
   (\<forall>f. try_delete None f \<noteq> Inr Skipped) \<and>
   (\<forall>f. stat_ok f \<and> chmod_ok f \<and> unlink_ok f \<longrightarrow>
      try_delete None f = Inr (Deleted (st_size f))) \<and>
   (\<forall>f g. try_delete None (touch_file g f) = try_delete None f) \<and>
   clean_temp size_fmt include_system aggressive 0 (w\<lparr>files := touch_store g (files w)\<rparr>) =
     (fst (clean_temp size_fmt include_system aggressive 0 w),
      (snd (clean_temp size_fmt include_system aggressive 0 w))
        \<lparr>files := touch_store g (files (snd (clean_temp size_fmt include_system aggressive 0 w)))\<rparr>)"
proof (intro conjI allI impI)
  show "cutoff_of t 0 = Inr None" by (rule cutoff_of_zero)
  show "\<exists>freed w'. clean_temp size_fmt include_system aggressive 0 w = (Inr freed, w')"
    using clean_temp_accounting[OF cutoff_of_zero] by blast
  show "try_delete None f \<noteq> Inr Skipped" for f
    by (simp add: try_delete_def)
  show "try_delete None f = Inr (Deleted (st_size f))"
    if "stat_ok f \<and> chmod_ok f \<and> unlink_ok f" for f
    using that by (simp add: try_delete_def)
  show "try_delete None (touch_file g f) = try_delete None f" for f g
    by (rule try_delete_touch)
  show "clean_temp size_fmt include_system aggressive 0 (w\<lparr>files := touch_store g (files w)\<rparr>) =
     (fst (clean_temp size_fmt include_system aggressive 0 w),
      (snd (clean_temp size_fmt include_system aggressive 0 w))
        \<lparr>files := touch_store g (files (snd (clean_temp size_fmt include_system aggressive 0 w)))\<rparr>)"
    by (rule clean_temp_touch)
qed

theorem clean_temp_zero_days_no_cutoff_witness:
  "stat_ok new_file \<and> chmod_ok new_file \<and> unlink_ok new_file \<and>
   cutoff_of (now cluttered) 0 = Inr None \<and>
   try_delete None new_file = Inr (Deleted 7) \<and>
   cutoff_of (now cluttered) 7 = Inr (Some 1703462400) \<and>
   try_delete (Some 1703462400) new_file = Inr Skipped \<and>
   fst (clean_temp no_fmt True False 0 cluttered) = Inr 117 \<and>
   fst (clean_temp no_fmt True False 0 (cluttered\<lparr>files := touch_store (\<lambda>f. 0) (files cluttered)\<rparr>))
     = Inr 117"
proof -
  have a: "stat_ok new_file \<and> chmod_ok new_file \<and> unlink_ok new_file" "st_size new_file = 7"
    by (simp_all add: new_file_def)
  have k: "cutoff_of (now cluttered) 7 = Inr (Some 1703462400)" by code_simp
  have b: "try_delete (Some 1703462400) new_file = Inr Skipped" by code_simp
  have c: "fst (clean_temp no_fmt True False 0 cluttered) = Inr 117" by code_simp
  note T = clean_temp_zero_days_no_cutoff [where t = "now cluttered" and size_fmt = no_fmt
        and include_system = True and aggressive = False and w = cluttered and g = "\<lambda>f. 0"]
  from T have z: "cutoff_of (now cluttered) 0 = Inr None" by blast
  from T a(1) have "try_delete None new_file = Inr (Deleted (st_size new_file))"
    by blast
  then have d: "try_delete None new_file = Inr (Deleted 7)"
    using a(2) by simp
  from T have "fst (clean_temp no_fmt True False 0
      (cluttered\<lparr>files := touch_store (\<lambda>f. 0) (files cluttered)\<rparr>))
      = fst (clean_temp no_fmt True False 0 cluttered)" by simp
  then show ?thesis using a k b c d z by simp
qed

subsection \<open>C9: the CPU benchmark counts primes and returns a rate\<close>

text \<open>
  Claim C9. The count \<open>bench_cpu n\<close> accumulates is the number of primes \<open>p\<close> with
  \<open>2 \<le> p < n\<close>: trial division by the divisors \<open>j\<close> with \<open>j * j \<le> i\<close> decides
  primality of every \<open>i \<ge> 2\<close>. The value returned is that count divided by the elapsed
  time, not the count; when no time has elapsed the division raises.
\<close>

theorem bench_cpu_counts_primes:
  "count_primes n = int (card {p. 2 \<le> p \<and> p < n \<and> is_prime p}) \<and>
   (\<forall>i. 2 \<le> i \<longrightarrow> trial_division i 2 = is_prime i) \<and>
   (t1 \<noteq> t0 \<longrightarrow> bench_cpu n t0 t1 = Inr (real_of_int (count_primes n) / (t1 - t0))) \<and>
   (t1 = t0 \<longrightarrow> bench_cpu n t0 t1 = Inl (ZeroDivisionError ''float division by zero''))"
proof (intro conjI allI impI)
  show "count_primes n = int (card {p. 2 \<le> p \<and> p < n \<and> is_prime p})"
    by (rule count_primes_card)
  show "trial_division i 2 = is_prime i" if "2 \<le> i" for i
    using that by (intro trial_division_correct) auto
  show "bench_cpu n t0 t1 = Inr (real_of_int (count_primes n) / (t1 - t0))" if "t1 \<noteq> t0"
    using that by (simp add: bench_cpu_eq)
  show "bench_cpu n t0 t1 = Inl (ZeroDivisionError ''float division by zero'')" if "t1 = t0"
    using that by (simp add: bench_cpu_eq)
qed

theorem bench_cpu_counts_primes_witness:
  "count_primes 30 = 10 \<and> card {p. 2 \<le> p \<and> p < 30 \<and> is_prime p} = 10 \<and>
   trial_division 29 2 \<and> is_prime 29 \<and> \<not> trial_division 25 2 \<and> \<not> is_prime 25 \<and>
   bench_cpu 30 100 102 = Inr 5 \<and>
   bench_cpu 30 100 100 = Inl (ZeroDivisionError ''float division by zero'')"
proof -
  have c: "count_primes 30 = 10" by code_simp
  have p: "trial_division 29 2" "\<not> trial_division 25 2" by code_simp+
  note T = bench_cpu_counts_primes
  from T[of 30] c have "card {p. 2 \<le> p \<and> p < (30::int) \<and> is_prime p} = 10" by simp
  moreover from T[of 30] p have "is_prime 29" "\<not> is_prime 25" by auto
  moreover from T[of 30 102 100] c have "bench_cpu 30 100 102 = Inr 5" by simp
  moreover from T[of 30 100 100] have "bench_cpu 30 100 100 = Inl (ZeroDivisionError ''float division by zero'')"
    by simp
  ultimately show ?thesis using c p by simp
qed


subsection \<open>C2: disabling and enabling a startup entry\<close>

text \<open>
  Claim C2. Let \<^verbatim>\<open>winreg\<close> be available, let the live Run key of the hive hold the
  entry \<open>name\<close> with data \<open>v\<close> and type \<open>t\<close>, and let the live key and the shadow key be
  readable and writable. Then \<open>toggle_startup\<close> with \<^verbatim>\<open>disable=True\<close> followed by
  \<open>toggle_startup\<close> with \<^verbatim>\<open>disable=False\<close> both return \<open>True\<close>; afterwards the live key
  is exactly what it was (the entry is back with its data and type), the shadow key
  has no entry of that name and its other entries are those it had, and no other key is
  changed.
\<close>

theorem toggle_startup_roundtrip:
  assumes "winreg_ok r"
    and "reg_keys r (hive_of hs, run_key) = Some k" and "k name = Some (v, t)"
    and "key_readable r (hive_of hs, run_key)" and "key_readable r (hive_of hs, shadow_key)"
    and "key_writable r (hive_of hs, run_key)" and "key_writable r (hive_of hs, shadow_key)"
  shows "\<exists>r1 r2.
     toggle_startup name hs True r = (Inr True, r1) \<and>
     toggle_startup name hs False r1 = (Inr True, r2) \<and>
     reg_keys r2 (hive_of hs, run_key) = Some k \<and>
     (\<exists>s. reg_keys r2 (hive_of hs, shadow_key) = Some s \<and> s name = None \<and>
        (\<forall>n. n \<noteq> name \<longrightarrow>
           s n = (case reg_keys r (hive_of hs, shadow_key) of None \<Rightarrow> None | Some s0 \<Rightarrow> s0 n))) \<and>
     (\<forall>key. key \<noteq> (hive_of hs, run_key) \<and> key \<noteq> (hive_of hs, shadow_key) \<longrightarrow>
        reg_keys r2 key = reg_keys r key)"
proof -
  let ?h = "hive_of hs"
  let ?s0 = "case reg_keys r (?h, shadow_key) of None \<Rightarrow> Map.empty | Some s \<Rightarrow> s"
  let ?r1 = "r\<lparr>reg_keys := (reg_keys r)
        ((?h, shadow_key) \<mapsto> ?s0(name \<mapsto> (v, t)), (?h, run_key) \<mapsto> k(name := None))\<rparr>"
  let ?r2 = "?r1\<lparr>reg_keys := (reg_keys ?r1)
        ((?h, run_key) \<mapsto> (case reg_keys ?r1 (?h, run_key) of None \<Rightarrow> Map.empty | Some s \<Rightarrow> s)(name \<mapsto> (v, t)),
         (?h, shadow_key) \<mapsto> (?s0(name \<mapsto> (v, t)))(name := None))\<rparr>"
  have ne: "run_key \<noteq> shadow_key" "shadow_key \<noteq> run_key" using run_neq_shadow by auto
  have d: "toggle_startup name hs True r = (Inr True, ?r1)"
    using assms move_value_ok[of r ?h run_key k name v t shadow_key] ne
    by (simp add: toggle_startup_eq)
  have k1: "reg_keys ?r1 (?h, shadow_key) = Some (?s0(name \<mapsto> (v, t)))" using ne by simp
  have e: "toggle_startup name hs False ?r1 = (Inr True, ?r2)"
    using assms ne move_value_ok[of ?r1 ?h shadow_key "?s0(name \<mapsto> (v, t))" name v t run_key, OF k1]
    by (simp add: toggle_startup_eq)
  have live: "reg_keys ?r2 (?h, run_key) = Some k"
  proof -
    have "(k(name := None))(name \<mapsto> (v, t)) = k" using assms(3) by (auto simp: fun_eq_iff)
    then show ?thesis using ne by simp
  qed
  have sh: "reg_keys ?r2 (?h, shadow_key) = Some (?s0(name := None))" using ne by simp
  have others: "\<forall>key. key \<noteq> (?h, run_key) \<and> key \<noteq> (?h, shadow_key) \<longrightarrow> reg_keys ?r2 key = reg_keys r key"
    by simp
  have rest: "\<forall>n. n \<noteq> name \<longrightarrow>
      (?s0(name := None)) n = (case reg_keys r (?h, shadow_key) of None \<Rightarrow> None | Some s0 \<Rightarrow> s0 n)"
    by (simp split: option.splits)
  from d e live sh others rest show ?thesis by fastforce
qed

theorem toggle_startup_roundtrip_witness:
  "reg_keys startup_registry (HKEY_CURRENT_USER, run_key)
     = Some [''OneDrive'' \<mapsto> (RegStr ''C:/OneDrive.exe /background'', 1),
             ''Updater'' \<mapsto> (RegStr ''%APPDATA%/upd.exe'', 2)] \<and>
   fst (toggle_startup ''OneDrive'' ''HKCU'' True startup_registry) = Inr True \<and>
   fst (toggle_startup ''OneDrive'' ''HKCU'' False
          (snd (toggle_startup ''OneDrive'' ''HKCU'' True startup_registry))) = Inr True \<and>
   reg_keys (snd (toggle_startup ''OneDrive'' ''HKCU'' False
          (snd (toggle_startup ''OneDrive'' ''HKCU'' True startup_registry)))) (HKEY_CURRENT_USER, run_key)
     = reg_keys startup_registry (HKEY_CURRENT_USER, run_key) \<and>
   the (reg_keys (snd (toggle_startup ''OneDrive'' ''HKCU'' False
          (snd (toggle_startup ''OneDrive'' ''HKCU'' True startup_registry)))) (HKEY_CURRENT_USER, shadow_key))
     ''OneDrive'' = None"
proof -
  let ?k = "[''OneDrive'' \<mapsto> (RegStr ''C:/OneDrive.exe /background'', 1),
             ''Updater'' \<mapsto> (RegStr ''%APPDATA%/upd.exe'', 2)]"
  have h: "hive_of ''HKCU'' = HKEY_CURRENT_USER" by (simp add: hive_of_def)
  have a: "winreg_ok startup_registry" by (simp add: startup_registry_def)
  have b: "reg_keys startup_registry (hive_of ''HKCU'', run_key) = Some ?k"
    by (simp add: startup_registry_def h)
  have c: "?k ''OneDrive'' = Some (RegStr ''C:/OneDrive.exe /background'', 1)" by simp
  have d: "key_readable startup_registry (hive_of ''HKCU'', run_key)"
    "key_readable startup_registry (hive_of ''HKCU'', shadow_key)"
    "key_writable startup_registry (hive_of ''HKCU'', run_key)"
    "key_writable startup_registry (hive_of ''HKCU'', shadow_key)"
    by (simp_all add: startup_registry_def)
  from toggle_startup_roundtrip [OF a b c d]
  obtain r1 r2 s where
    "toggle_startup ''OneDrive'' ''HKCU'' True startup_registry = (Inr True, r1)"
    "toggle_startup ''OneDrive'' ''HKCU'' False r1 = (Inr True, r2)"
    "reg_keys r2 (hive_of ''HKCU'', run_key) = Some ?k"
    "reg_keys r2 (hive_of ''HKCU'', shadow_key) = Some s" "s ''OneDrive'' = None"
    by blast
  then show ?thesis using b h by simp
qed


subsection \<open>C8: a log directory that cannot be created\<close>

text \<open>
  Claim C8 asks that no failure of the logging subsystem, a log directory that cannot
  be created included, reaches any other action. The source does this for the log file
  (\<open>log\<close> swallows every exception of the write) but not for the directory: line 18
  creates it when the module is loaded, outside every \<^verbatim>\<open>try\<close>. On a machine where
  the directory is absent and cannot be created the exception leaves the module, and
  no action runs; where the directory is there and only the log file cannot be
  written, the logger returns and the action completes.
\<close>

theorem log_dir_failure_aborts:
  "module_init locked_out = Inl (PermissionError ''Access is denied'') \<and>
   script locked_out (enable_ultimate powercfg_sim) (fresh_world english)
     = (Inl (PermissionError ''Access is denied''), fresh_world english) \<and>
   script locked_out (restore_power powercfg_sim) (fresh_world english)
     = (Inl (PermissionError ''Access is denied''), fresh_world english) \<and>
   log ''RUN'' ((fresh_world english)\<lparr>log_writable := False\<rparr>)
     = (Inr (), (fresh_world english)\<lparr>log_writable := False\<rparr>) \<and>
   fst (script \<lparr>log_dir_present = True, log_dir_creatable = False\<rparr>
          (enable_ultimate powercfg_sim) ((fresh_world english)\<lparr>log_writable := False\<rparr>))
     = Inr True"
proof -
  have "fst (enable_ultimate powercfg_sim ((fresh_world english)\<lparr>log_writable := False\<rparr>)) = Inr True"
    by code_simp
  then show ?thesis
    by (simp add: module_init_def script_def locked_out_def log_simp)
qed

end
